theory Spec2Isabelle
  imports Main "HOL-Library.Char_ord" "HOL-Library.List_Lexorder" "HOL-Library.AList" "HOL-Library.Multiset"
begin

section \<open>Strings and the Go standard library\<close>

text \<open>
  A Go \<open>string\<close> is a sequence of bytes, and so is a HOL \<^typ>\<open>string\<close>: \<open>len(s)\<close> is
  \<^term>\<open>length s\<close>, the number of bytes, \<open>s[1:]\<close> is \<^term>\<open>drop 1 s\<close>, and \<open><\<close> on
  strings compares byte by byte, a proper prefix being smaller.
\<close>

definition isDigit :: "char \<Rightarrow> bool" where
  "isDigit c = ((48::nat) \<le> of_char c \<and> of_char c \<le> (57::nat))"

definition HasPrefix :: "string \<Rightarrow> string \<Rightarrow> bool" where
  \<comment> \<open>\<open>strings.HasPrefix(s, prefix)\<close>\<close>
  "HasPrefix s p = (take (length p) s = p)"

fun Contains :: "string \<Rightarrow> string \<Rightarrow> bool" where
  \<comment> \<open>\<open>strings.Contains(s, substr)\<close>\<close>
  "Contains [] sub = (sub = [])"
| "Contains (c # s) sub = (HasPrefix (c # s) sub \<or> Contains s sub)"

fun Join :: "string list \<Rightarrow> string \<Rightarrow> string" where
  \<comment> \<open>\<open>strings.Join(elems, sep)\<close>\<close>
  "Join [] sep = []"
| "Join [x] sep = x"
| "Join (x # y # ys) sep = x @ sep @ Join (y # ys) sep"

fun digitsOf :: "nat \<Rightarrow> string" where
  "digitsOf n =
     (if n < 10 then [''0123456789'' ! n]
      else digitsOf (n div 10) @ [''0123456789'' ! (n mod 10)])"

declare digitsOf.simps [simp del]

definition Itoa :: "int \<Rightarrow> string" where
  \<comment> \<open>\<open>strconv.Itoa\<close>, and the verb \<open>%d\<close> of \<open>fmt\<close>\<close>
  "Itoa i = (if i < 0 then CHR ''-'' # digitsOf (nat (- i)) else digitsOf (nat i))"

definition removeNonDigits :: "string \<Rightarrow> string" where
  \<comment> \<open>\<open>regexp.MustCompile(`\D`).ReplaceAllString(s, "")\<close>: every rune that is not an ASCII
      digit is deleted. The bytes of a multi-byte rune and an invalid byte are all at least
      128, so what stays is exactly the bytes \<open>0\<close> to \<open>9\<close>, in order.\<close>
  "removeNonDigits s = filter isDigit s"

definition continuation :: "char \<Rightarrow> nat \<Rightarrow> nat \<Rightarrow> bool" where
  \<comment> \<open>the byte lies in the range accepted at its place\<close>
  "continuation c lo hi = (lo \<le> (of_char c :: nat) \<and> (of_char c :: nat) \<le> hi)"

fun runeLen :: "string \<Rightarrow> nat" where
  \<comment> \<open>The width of the first rune of a non-empty string, as \<open>utf8.DecodeRuneInString\<close> gives
      it: the length of a well-formed UTF-8 sequence (no overlong form, no surrogate, nothing
      above U+10FFFF), and 1 for a byte that starts none.\<close>
  "runeLen [] = 0"
| "runeLen [c] = 1"
| "runeLen (c # c1 # cs) =
     (let b = (of_char c :: nat);
          lo = (if b = 224 then 160 else if b = 240 then 144 else 128);
          hi = (if b = 237 then 159 else if b = 244 then 143 else 191);
          width = (if 194 \<le> b \<and> b \<le> 223 then (2::nat)
                  else if 224 \<le> b \<and> b \<le> 239 then 3
                  else if 240 \<le> b \<and> b \<le> 244 then 4
                  else 1)
      in if width = 1 then 1
         else if \<not> continuation c1 lo hi then 1
         else if width = 2 then 2
         else (case cs of
                 [] \<Rightarrow> 1
               | c2 # cs' \<Rightarrow>
                   if \<not> continuation c2 128 191 then 1
                   else if width = 3 then 3
                   else (case cs' of
                           [] \<Rightarrow> 1
                         | c3 # cs'' \<Rightarrow> if \<not> continuation c3 128 191 then 1 else 4)))"

fun runeCount :: "nat \<Rightarrow> string \<Rightarrow> nat" where
  \<comment> \<open>The number of Unicode code points of a string (\<open>utf8.RuneCountInString\<close>); the first
      argument bounds the number of steps and is the length of the string.\<close>
  "runeCount 0 s = 0"
| "runeCount (Suc fuel) s = (if s = [] then 0 else Suc (runeCount fuel (drop (runeLen s) s)))"

definition RuneCountInString :: "string \<Rightarrow> nat" where
  "RuneCountInString s = runeCount (length s) s"

text \<open>
  The functions of the Go standard library and of \<open>shopspring/decimal\<close> that the program
  calls and that are not modelled above are parameters of the model, collected in one
  record. An instant of time is an integer; the clock is read as the one instant \<open>Now\<close>.
\<close>

record GoLib =
  TrimSpace :: "string \<Rightarrow> string"
  ReplaceAll :: "string \<Rightarrow> string \<Rightarrow> string \<Rightarrow> string"
  Split :: "string \<Rightarrow> string \<Rightarrow> string list"
  MatchString :: "string \<Rightarrow> string \<Rightarrow> string + bool"
    \<comment> \<open>\<open>regexp.MatchString(pattern, s)\<close>: the error's text, or whether it matches\<close>
  Atoi :: "string \<Rightarrow> string + int"
  ParseFloat :: "string \<Rightarrow> string option"
    \<comment> \<open>the error's text of \<open>strconv.ParseFloat(s, 64)\<close>, if it fails\<close>
  NewFromString :: "string \<Rightarrow> string option"
    \<comment> \<open>the error's text of \<open>decimal.NewFromString(s)\<close>, if it fails\<close>
  Sprintf0 :: "string \<Rightarrow> string"
    \<comment> \<open>\<open>fmt.Sprintf(format)\<close> without arguments\<close>
  timeParse :: "string \<Rightarrow> string \<Rightarrow> string + int"
  Now :: int
  Year :: "int \<Rightarrow> int"
  AddDate :: "int \<Rightarrow> int \<Rightarrow> int \<Rightarrow> int \<Rightarrow> int"
  After :: "int \<Rightarrow> int \<Rightarrow> bool"

section \<open>Korean phone numbers in E.164\<close>

definition formatKoreanPhoneE164 :: "string \<Rightarrow> string" where
  \<comment> \<open>package validator\<close>
  "formatKoreanPhoneE164 phone =
     (let cleaned = removeNonDigits phone in
      if length cleaned = 10 \<and> HasPrefix cleaned ''0'' then ''+82'' @ drop 1 cleaned
      else if length cleaned = 11 \<and> HasPrefix cleaned ''01'' then ''+82'' @ drop 1 cleaned
      else cleaned)"

definition toE164KR :: "string \<Rightarrow> string" where
  \<comment> \<open>package request, a function of the templates\<close>
  "toE164KR phone =
     (let cleaned = removeNonDigits phone in
      if length cleaned = 10 \<and> HasPrefix cleaned ''0'' then ''+82'' @ drop 1 cleaned
      else if length cleaned = 11 \<and> HasPrefix cleaned ''01'' then ''+82'' @ drop 1 cleaned
      else cleaned)"

definition e164KR_spec :: "string \<Rightarrow> string" where
  \<comment> \<open>The transform in the specification's words: strip the non-digits; ten digits
      starting with 0, or eleven starting with 01, lose the leading 0 and gain +82;
      anything else is the stripped digits.\<close>
  "e164KR_spec s =
     (let ds = filter (\<lambda>c. c \<in> set ''0123456789'') s in
      case ds of
        [] \<Rightarrow> ds
      | d # rest \<Rightarrow>
          if d = CHR ''0'' \<and> (length ds = 10 \<or> (length ds = 11 \<and> take 1 rest = ''1''))
          then ''+82'' @ rest else ds)"

section \<open>The schema (package config)\<close>

record PreprocessRule =
  Remove :: "string list"
  Replace :: "(string \<times> string) list"
    \<comment> \<open>a Go map; the list gives its entries in the order the \<open>range\<close> loop visits them\<close>
  Trim :: bool

record ValidationRule =
  RuleRegex :: string
  RuleMessage :: string

record TransformRule =
  FormatKoreanPhoneE164 :: bool

record NormalizeRule =
  NormMap :: "string \<rightharpoonup> string"

record RowRule =
  RuleName :: string
  Expr :: string

record UniquenessRule =
  UniqueColumns :: "string list"

record NullPolicy =
  TreatEmptyAsNull :: bool

text \<open>The fields \<open>Secret\<close> and \<open>Range\<close> of a column are not read by the validator; \<open>Range\<close> is left out.\<close>

record ColumnSchema =
  Name :: string
  Type :: string
  Required :: bool
  Secret :: bool
  MinLen :: "int option"
  MaxLen :: "int option"
  Regex :: string
  Enum :: "string list"
  Format :: string
  Preprocess :: "PreprocessRule list"
  Validators :: "ValidationRule list"
  Transform :: "TransformRule list"
  Normalize :: "NormalizeRule option"

record Schema =
  Columns :: "ColumnSchema list"
  RowRules :: "RowRule list"
  Uniqueness :: "UniquenessRule list"
  NullPolicy :: NullPolicy

section \<open>The validator\<close>

record ValidationError =
  Row :: int
  Column :: string
  Value :: string
  Message :: string

text \<open>
  The normalized data of a row is a Go map that is later enumerated (by the template
  engine and by the request hash): an association list with distinct keys, a new key
  going to the end. The raw data of a row is only looked up.
\<close>

record ValidationResult =
  Valid :: bool
  Errors :: "ValidationError list"
  Data :: "(string \<times> string) list"

definition lookup :: "(string \<times> string) list \<Rightarrow> string \<Rightarrow> string" where
  \<comment> \<open>\<open>m[k]\<close> on a \<open>map[string]string\<close>: the empty string for a missing key\<close>
  "lookup m k = (case map_of m k of None \<Rightarrow> [] | Some v \<Rightarrow> v)"

record Validator =
  schema :: Schema
  seen :: "string \<rightharpoonup> string set"
    \<comment> \<open>column \<open>\<rightarrow>\<close> values seen; \<open>None\<close> is the nil inner map\<close>

definition NewValidator :: "Schema \<Rightarrow> Validator" where
  "NewValidator s =
     \<lparr>schema = s,
      seen = foldl (\<lambda>m rule. foldl (\<lambda>m col. if m col = None then m(col \<mapsto> {}) else m)
                                   m (UniqueColumns rule))
                   Map.empty (Uniqueness s)\<rparr>"

definition preprocess :: "GoLib \<Rightarrow> string \<Rightarrow> PreprocessRule list \<Rightarrow> string" where
  "preprocess L value rules =
     foldl (\<lambda>result rule.
              let result = (if Trim rule then TrimSpace L result else result);
                  result = foldl (\<lambda>r toRemove. ReplaceAll L r toRemove []) result (Remove rule)
              in foldl (\<lambda>r (from, to). ReplaceAll L r from to) result (Replace rule))
           value rules"

definition validateDate :: "GoLib \<Rightarrow> string \<Rightarrow> string \<Rightarrow> string option" where
  "validateDate L value format0 =
     (let format = (if format0 = [] then ''20060102'' else format0) in
      case timeParse L format value of
        Inl err \<Rightarrow> Some (''invalid date format: '' @ err)
      | Inr date \<Rightarrow>
          if format = ''20060102'' then
            let now = Now L;
                age = Year L now - Year L date;
                age = (if After L date (AddDate L now (- age) 0 0) then age - 1 else age)
            in if age < 0 \<or> age > 120
               then Some (''invalid age: '' @ Itoa age @ '' (must be 0-120)'')
               else None
          else None)"

definition validateType :: "GoLib \<Rightarrow> string \<Rightarrow> string \<Rightarrow> string \<Rightarrow> string option" where
  "validateType L value colType format =
     (if colType = ''string'' then None
      else if colType = ''int'' then
        (case Atoi L value of Inl err \<Rightarrow> Some (''invalid integer: '' @ err) | Inr _ \<Rightarrow> None)
      else if colType = ''float'' then
        (case ParseFloat L value of Some err \<Rightarrow> Some (''invalid float: '' @ err) | None \<Rightarrow> None)
      else if HasPrefix colType ''decimal('' then
        (case NewFromString L value of Some err \<Rightarrow> Some (''invalid decimal: '' @ err) | None \<Rightarrow> None)
      else if HasPrefix colType ''date'' then validateDate L value format
      else Some (''unsupported column type: '' @ colType))"

fun customRules :: "GoLib \<Rightarrow> string \<Rightarrow> ValidationRule list \<Rightarrow> string option" where
  \<comment> \<open>the loop over \<open>colSchema.Validators\<close>, returning at the first error\<close>
  "customRules L value [] = None"
| "customRules L value (rule # rules) =
     (if RuleRegex rule \<noteq> [] then
        (case MatchString L (RuleRegex rule) value of
           Inl err \<Rightarrow> Some (''custom validation error: '' @ err)
         | Inr matched \<Rightarrow>
             if \<not> matched then
               Some (Sprintf0 L (if RuleMessage rule = [] then ''value does not match validation rule''
                                 else RuleMessage rule))
             else customRules L value rules)
      else customRules L value rules)"

definition validateValue :: "GoLib \<Rightarrow> string \<Rightarrow> ColumnSchema \<Rightarrow> string option" where
  \<comment> \<open>the error's text, or \<open>None\<close> for \<open>nil\<close>\<close>
  "validateValue L value colSchema =
     (case validateType L value (Type colSchema) (Format colSchema) of
        Some err \<Rightarrow> Some err
      | None \<Rightarrow>
     (case (case MinLen colSchema of None \<Rightarrow> None
            | Some m \<Rightarrow> if int (length value) < m then Some m else None) of
        Some m \<Rightarrow> Some (''value too short (min '' @ Itoa m @ '' characters)'')
      | None \<Rightarrow>
     (case (case MaxLen colSchema of None \<Rightarrow> None
            | Some m \<Rightarrow> if int (length value) > m then Some m else None) of
        Some m \<Rightarrow> Some (''value too long (max '' @ Itoa m @ '' characters)'')
      | None \<Rightarrow>
     (case (if Regex colSchema \<noteq> [] then
              (case MatchString L (Regex colSchema) value of
                 Inl err \<Rightarrow> Some (''regex validation error: '' @ err)
               | Inr matched \<Rightarrow>
                   if \<not> matched then Some ''value does not match required pattern'' else None)
            else None) of
        Some err \<Rightarrow> Some err
      | None \<Rightarrow>
     (if length (Enum colSchema) > 0 \<and> \<not> (value \<in> set (Enum colSchema))
      then Some (''value must be one of: '' @ Join (Enum colSchema) '', '')
      else customRules L value (Validators colSchema))))))"

definition transform :: "string \<Rightarrow> TransformRule list \<Rightarrow> string" where
  "transform value rules =
     foldl (\<lambda>result rule. if FormatKoreanPhoneE164 rule then formatKoreanPhoneE164 result
                           else result)
           value rules"

definition columnOutcome ::
  "GoLib \<Rightarrow> Schema \<Rightarrow> (string \<rightharpoonup> string) \<Rightarrow> ColumnSchema \<Rightarrow> (string \<times> string) + string" where
  \<comment> \<open>what the body of the loop over \<open>v.schema.Columns\<close> in \<open>ValidateRow\<close> computes for one
      column: \<open>Inl (value, message)\<close> when it appends an error and goes on to the next column,
      \<open>Inr x\<close> when it stores \<open>x\<close> in \<open>result.Data\<close>\<close>
  "columnOutcome L sch data colSchema =
     (let value0 = (case data (Name colSchema) of None \<Rightarrow> [] | Some v \<Rightarrow> v);
          exists0 = (data (Name colSchema) \<noteq> None);
          value = (if TreatEmptyAsNull (NullPolicy sch) \<and> value0 = [] then [] else value0);
          exists = (if TreatEmptyAsNull (NullPolicy sch) \<and> value0 = [] then False else exists0)
      in
      if Required colSchema \<and> (\<not> exists \<or> value = []) then
        Inl (value, ''required field is missing or empty'')
      else if \<not> exists \<or> value = [] then Inr []
      else
        let processedValue = preprocess L value (Preprocess colSchema);
            processedValue =
              (case Normalize colSchema of
                 None \<Rightarrow> processedValue
               | Some n \<Rightarrow> (case NormMap n processedValue of
                              Some mapped \<Rightarrow> mapped
                            | None \<Rightarrow> processedValue))
        in case validateValue L processedValue colSchema of
             Some err \<Rightarrow> Inl (value, err)
           | None \<Rightarrow> Inr (transform processedValue (Transform colSchema)))"

definition columnStep ::
  "GoLib \<Rightarrow> Schema \<Rightarrow> int \<Rightarrow> (string \<rightharpoonup> string) \<Rightarrow> ValidationResult \<Rightarrow> ColumnSchema
     \<Rightarrow> ValidationResult" where
  \<comment> \<open>the effect of the body of the loop on \<open>result\<close>\<close>
  "columnStep L sch rowNum data result colSchema =
     (case columnOutcome L sch data colSchema of
        Inl (value, message) \<Rightarrow>
          result\<lparr>Valid := False,
                 Errors := Errors result @
                   [\<lparr>Row = rowNum, Column = Name colSchema, Value = value, Message = message\<rparr>]\<rparr>
      | Inr x \<Rightarrow> result\<lparr>Data := AList.update (Name colSchema) x (Data result)\<rparr>)"

definition columnPhase ::
  "GoLib \<Rightarrow> Schema \<Rightarrow> int \<Rightarrow> (string \<rightharpoonup> string) \<Rightarrow> ValidationResult" where
  \<comment> \<open>the loop over the columns, from the fresh result\<close>
  "columnPhase L sch rowNum data =
     foldl (columnStep L sch rowNum data) \<lparr>Valid = True, Errors = [], Data = []\<rparr> (Columns sch)"

fun checkColumns ::
  "int \<Rightarrow> string list \<Rightarrow> ValidationResult \<times> (string \<rightharpoonup> string set)
     \<Rightarrow> (ValidationResult \<times> (string \<rightharpoonup> string set)) option" where
  \<comment> \<open>the inner loop of \<open>checkUniqueness\<close>, over the columns of one rule; \<open>None\<close> is the
      panic of Go on an assignment to an entry of a nil map\<close>
  "checkColumns rowNum [] (result, sn) = Some (result, sn)"
| "checkColumns rowNum (col # cols) (result, sn) =
     (let value = lookup (Data result) col in
      if value = [] then checkColumns rowNum cols (result, sn)
      else if (case sn col of None \<Rightarrow> False | Some vs \<Rightarrow> value \<in> vs) then
        checkColumns rowNum cols
          (result\<lparr>Valid := False,
                  Errors := Errors result @
                    [\<lparr>Row = rowNum, Column = col, Value = value,
                      Message = ''duplicate value violates uniqueness constraint''\<rparr>]\<rparr>, sn)
      else
        (case sn col of
           None \<Rightarrow> None
         | Some vs \<Rightarrow> checkColumns rowNum cols (result, sn(col \<mapsto> insert value vs))))"

fun checkUniqueness ::
  "int \<Rightarrow> UniquenessRule list \<Rightarrow> ValidationResult \<times> (string \<rightharpoonup> string set)
     \<Rightarrow> (ValidationResult \<times> (string \<rightharpoonup> string set)) option" where
  \<comment> \<open>the outer loop, over \<open>v.schema.Uniqueness\<close>\<close>
  "checkUniqueness rowNum [] st = Some st"
| "checkUniqueness rowNum (rule # rules) st =
     (case checkColumns rowNum (UniqueColumns rule) st of
        None \<Rightarrow> None
      | Some st' \<Rightarrow> checkUniqueness rowNum rules st')"

definition ageBound :: "GoLib \<Rightarrow> string \<Rightarrow> string \<Rightarrow> (int \<Rightarrow> bool) \<Rightarrow> bool" where
  \<comment> \<open>one side of the age expression: whether it makes \<open>evaluateRowRule\<close> return false;
      the last argument says which bounds the age violates\<close>
  "ageBound L side op bad =
     (if Contains side op then
        (let ageParts = Split L side op in
         if length ageParts = 2 then
           (case Atoi L (TrimSpace L (ageParts ! 1)) of
              Inl err \<Rightarrow> True
            | Inr bound \<Rightarrow> bad bound)
         else False)
      else False)"

definition evaluateRowRule :: "GoLib \<Rightarrow> string \<Rightarrow> (string \<times> string) list \<Rightarrow> bool" where
  "evaluateRowRule L expr data =
     (if Contains expr ''age(birth)'' then
        (let birthStr = lookup data ''birth'' in
         if birthStr = [] then False
         else
           case timeParse L ''20060102'' birthStr of
             Inl err \<Rightarrow> False
           | Inr birth \<Rightarrow>
               let now = Now L;
                   age = Year L now - Year L birth;
                   age = (if After L birth (AddDate L now (- age) 0 0) then age - 1 else age);
                   ageExpr = ReplaceAll L expr ''age(birth)'' (Itoa age)
               in
               if Contains ageExpr ''>='' \<and> Contains ageExpr ''&&'' \<and> Contains ageExpr ''<=''
               then
                 (let parts = Split L ageExpr ''&&'' in
                  if length parts = 2 then
                    (if ageBound L (TrimSpace L (parts ! 0)) ''>='' (\<lambda>minAge. age < minAge)
                     then False
                     else if ageBound L (TrimSpace L (parts ! 1)) ''<='' (\<lambda>maxAge. age > maxAge)
                     then False
                     else True)
                  else True)
               else True)
      else True)"

definition ruleStep :: "GoLib \<Rightarrow> int \<Rightarrow> ValidationResult \<Rightarrow> RowRule \<Rightarrow> ValidationResult" where
  \<comment> \<open>the body of the loop of \<open>validateRowRules\<close>\<close>
  "ruleStep L rowNum result rule =
     (if \<not> evaluateRowRule L (Expr rule) (Data result) then
        result\<lparr>Valid := False,
               Errors := Errors result @
                 [\<lparr>Row = rowNum, Column = [], Value = [],
                   Message = ''row rule '' @ [CHR 0x27] @ RuleName rule @ [CHR 0x27]
                             @ '' failed: '' @ Expr rule\<rparr>]\<rparr>
      else result)"

definition validateRowRules :: "GoLib \<Rightarrow> int \<Rightarrow> RowRule list \<Rightarrow> ValidationResult \<Rightarrow> ValidationResult" where
  "validateRowRules L rowNum rules result0 = foldl (ruleStep L rowNum) result0 rules"

definition ValidateRow ::
  "GoLib \<Rightarrow> Validator \<Rightarrow> int \<Rightarrow> (string \<rightharpoonup> string) \<Rightarrow> (ValidationResult \<times> Validator) option" where
  \<comment> \<open>the result and the validator with its updated \<open>seen\<close>; \<open>None\<close> for a panic\<close>
  "ValidateRow L v rowNum data =
     (let result = columnPhase L (schema v) rowNum data in
      case (if Valid result
            then checkUniqueness rowNum (Uniqueness (schema v)) (result, seen v)
            else Some (result, seen v)) of
        None \<Rightarrow> None
      | Some (result, sn) \<Rightarrow>
          Some (if Valid result then validateRowRules L rowNum (RowRules (schema v)) result
                else result,
                v\<lparr>seen := sn\<rparr>))"


text \<open>
  The validator of a run validates the rows one after the other; a row is its number and
  its raw data.
\<close>

fun validateRows ::
  "GoLib \<Rightarrow> Validator \<Rightarrow> (int \<times> (string \<rightharpoonup> string)) list
     \<Rightarrow> (ValidationResult list \<times> Validator) option" where
  "validateRows L v [] = Some ([], v)"
| "validateRows L v ((rowNum, data) # rows) =
     (case ValidateRow L v rowNum data of
        None \<Rightarrow> None
      | Some (r, v') \<Rightarrow>
          (case validateRows L v' rows of
             None \<Rightarrow> None
           | Some (rs, v'') \<Rightarrow> Some (r # rs, v'')))"

definition duplicateError :: "int \<Rightarrow> string \<Rightarrow> string \<Rightarrow> ValidationError" where
  \<comment> \<open>the error that \<open>checkUniqueness\<close> appends\<close>
  "duplicateError rowNum col value =
     \<lparr>Row = rowNum, Column = col, Value = value,
      Message = ''duplicate value violates uniqueness constraint''\<rparr>"

text \<open>
  A library in which nothing is available: every parse and every match fails, and the
  string functions return their argument. It stands for the library in the examples, all
  over string columns without rules, where the validator never calls it.
\<close>

definition stubLib :: GoLib where
  "stubLib =
     \<lparr>TrimSpace = (\<lambda>s. s), ReplaceAll = (\<lambda>s old new. s), Split = (\<lambda>s sep. [s]),
      MatchString = (\<lambda>pattern s. Inl ''no regexp''), Atoi = (\<lambda>s. Inl ''no strconv''),
      ParseFloat = (\<lambda>s. Some ''no strconv''), NewFromString = (\<lambda>s. Some ''no decimal''),
      Sprintf0 = (\<lambda>s. s), timeParse = (\<lambda>layout s. Inl ''no time''), Now = 0,
      Year = (\<lambda>t. 1970), AddDate = (\<lambda>t y m d. t), After = (\<lambda>t u. False)\<rparr>"

definition stringColumn :: "string \<Rightarrow> bool \<Rightarrow> ColumnSchema" where
  \<comment> \<open>a column of type \<open>string\<close> with no constraint and no rule, as the YAML decoder builds it
      from \<open>name\<close>, \<open>type\<close> and \<open>required\<close>\<close>
  "stringColumn n req =
     \<lparr>Name = n, Type = ''string'', Required = req, Secret = False, MinLen = None,
      MaxLen = None, Regex = [], Enum = [], Format = [], Preprocess = [], Validators = [],
      Transform = [], Normalize = None\<rparr>"
section \<open>The request configuration (package config)\<close>

text \<open>
  A Go map that is enumerated is a list of its entries, in the order the \<open>range\<close> loop
  visits them. \<open>Success.StatusIn\<close> and \<open>Success.ResponseKeys\<close> are the two fields of the
  nested \<open>SuccessCondition\<close>.
\<close>

record RequestConfig =
  Method :: string
  URL :: string
  Headers :: "(string \<times> string) list"
  Body :: string
  Proxy :: string
  StatusIn :: "int list"
  ResponseKeys :: "(string \<times> string) list"

definition validateRequestConfig :: "RequestConfig \<Rightarrow> string + RequestConfig" where
  "validateRequestConfig config =
     (if Method config = [] then Inl ''method is required''
      else if URL config = [] then Inl ''url is required''
      else if length (StatusIn config) = 0
        then Inr (config\<lparr>StatusIn := [200, 201, 202, 203, 204, 205, 206, 207, 208, 226]\<rparr>)
      else Inr config)"

definition IsSuccessStatus :: "RequestConfig \<Rightarrow> int \<Rightarrow> bool" where
  "IsSuccessStatus rc statusCode = list_ex (\<lambda>code. code = statusCode) (StatusIn rc)"

section \<open>The request hash\<close>

function sortInner :: "string list \<Rightarrow> nat \<Rightarrow> nat \<Rightarrow> string list" where
  \<comment> \<open>\<open>for j := ...; j < len(keys); j++ { if keys[i] > keys[j] { swap } }\<close>\<close>
  "sortInner keys i j =
     (if j < length keys then
        sortInner (if keys ! i > keys ! j then keys[i := keys ! j, j := keys ! i] else keys)
                  i (j + 1)
      else keys)"
  by pat_completeness auto
termination
  by (relation "measure (\<lambda>(keys, i, j). length keys - j)") auto

declare sortInner.simps [simp del]

function sortOuter :: "string list \<Rightarrow> nat \<Rightarrow> string list" where
  \<comment> \<open>\<open>for i := ...; i < len(keys); i++ { inner loop from i + 1 }\<close>\<close>
  "sortOuter keys i =
     (if i < length keys then sortOuter (sortInner keys i (i + 1)) (i + 1) else keys)"
  by pat_completeness auto
termination
proof (relation "measure (\<lambda>(keys, i). length keys - i)")
  have len: "length (sortInner keys i j) = length keys" for keys i j
    by (induction keys i j rule: sortInner.induct) (subst sortInner.simps, auto)
  fix keys :: "string list" and i :: nat
  assume "i < length keys"
  then show "((sortInner keys i (i + 1), i + 1), (keys, i)) \<in> measure (\<lambda>(keys, i). length keys - i)"
    by (simp add: len)
qed simp

declare sortOuter.simps [simp del]

definition simpleSort :: "string list \<Rightarrow> string list" where
  \<comment> \<open>the hand-written sort of both \<open>generateRequestHash\<close>\<close>
  "simpleSort keys = sortOuter keys 0"

definition dataLines :: "(string \<times> string) list \<Rightarrow> string" where
  \<comment> \<open>the keys of the map, sorted, each written as \<open>data:key=value\<close> and a newline\<close>
  "dataLines data =
     concat (map (\<lambda>key. ''data:'' @ key @ ''='' @ lookup data key @ [CHR 0x0A])
                 (simpleSort (map fst data)))"

definition configLines :: "RequestConfig \<Rightarrow> string" where
  "configLines rc =
     ''method:'' @ Method rc @ [CHR 0x0A] @ ''url:'' @ URL rc @ [CHR 0x0A]
       @ ''body:'' @ Body rc @ [CHR 0x0A]"

text \<open>
  The digest is a parameter: \<open>H\<close> is the SHA-256 of the bytes written, in lowercase
  hexadecimal. The first function is the one of the runner, the second the one of the
  template renderer.
\<close>

definition generateRequestHash ::
  "(string \<Rightarrow> string) \<Rightarrow> RequestConfig \<Rightarrow> (string \<times> string) list \<Rightarrow> string" where
  \<comment> \<open>runner/runner.go\<close>
  "generateRequestHash H rc data = H (configLines rc @ dataLines data)"

definition rendererRequestHash ::
  "(string \<Rightarrow> string) \<Rightarrow> RequestConfig \<Rightarrow> (string \<times> string) list \<Rightarrow> string" where
  \<comment> \<open>request/template.go, \<open>generateRequestHash\<close> of the \<open>TemplateRenderer\<close>\<close>
  "rendererRequestHash H rc data =
     H (configLines rc
        @ concat (map (\<lambda>(key, value). ''header:'' @ key @ ''='' @ value @ [CHR 0x0A]) (Headers rc))
        @ dataLines data)"

section \<open>The template renderer\<close>

record RequestData =
  dURL :: string
  dMethod :: string
  dHeaders :: "(string \<times> string) list"
  dBody :: string
  dProxy :: string
  dHash :: string

text \<open>
  The template engine (\<open>text/template\<close> with the function table of the renderer) is a
  parameter \<open>T\<close>: the text of a template and the data give the rendered string or the text
  of the error.
\<close>

fun renderHeaders ::
  "(string \<Rightarrow> (string \<times> string) list \<Rightarrow> string + string) \<Rightarrow> (string \<times> string) list
     \<Rightarrow> (string \<times> string) list \<Rightarrow> (string \<times> string) list \<Rightarrow> string + (string \<times> string) list" where
  "renderHeaders T [] data acc = Inr acc"
| "renderHeaders T ((key, tmpl) # hs) data acc =
     (case T tmpl data of
        Inl err \<Rightarrow> Inl (''failed to render header '' @ key @ '': '' @ err)
      | Inr headerValue \<Rightarrow>
          renderHeaders T hs data
            (if headerValue \<noteq> [] then AList.update key headerValue acc else acc))"

definition Render ::
  "(string \<Rightarrow> (string \<times> string) list \<Rightarrow> string + string) \<Rightarrow> (string \<Rightarrow> string)
     \<Rightarrow> RequestConfig \<Rightarrow> (string \<times> string) list \<Rightarrow> string + RequestData" where
  "Render T H rc data =
     (case T (URL rc) data of
        Inl err \<Rightarrow> Inl (''failed to render URL: '' @ err)
      | Inr url \<Rightarrow>
     (case renderHeaders T (Headers rc) data [] of
        Inl err \<Rightarrow> Inl err
      | Inr headers \<Rightarrow>
     (case (if Body rc \<noteq> [] then T (Body rc) data else Inr []) of
        Inl err \<Rightarrow> Inl (''failed to render body: '' @ err)
      | Inr body \<Rightarrow>
     (case (if Proxy rc \<noteq> [] then T (Proxy rc) data else Inr []) of
        Inl err \<Rightarrow> Inl (''failed to render proxy: '' @ err)
      | Inr proxy \<Rightarrow>
          Inr \<lparr>dURL = url, dMethod = Method rc, dHeaders = headers, dBody = body,
               dProxy = proxy, dHash = rendererRequestHash H rc data\<rparr>))))"

section \<open>The HTTP client\<close>

record RequestResult =
  StatusCode :: int
  Success :: bool
  LatencyMs :: int
  Retries :: int
  ErrorCategory :: string
  ErrorDetail :: string
  ResponsePreview :: string
  RHeaders :: "(string \<times> string) list"
  RequestID :: string

text \<open>
  What one call of \<open>executeRequest\<close> meets: the request cannot be built, the round trip
  fails, the response arrives but its body cannot be read, or the response arrives whole.
  A response carries its status code, whatever it is: \<open>http.Client.Do\<close> returns no error
  for a status of 4xx or 5xx.
\<close>

datatype Transport =
    NewRequestFailed string
  | DoFailed string
  | ReadFailed int "(string \<times> string list) list" string
  | Response int string "(string \<times> string list) list"

fun executeRequest :: "Transport \<Rightarrow> int \<times> string \<times> (string \<times> string list) list \<times> string option" where
  \<comment> \<open>status code, body, header (\<open>[]\<close> for nil), error\<close>
  "executeRequest (NewRequestFailed err) = (0, [], [], Some (''failed to create request: '' @ err))"
| "executeRequest (DoFailed err) = (0, [], [], Some err)"
| "executeRequest (ReadFailed status header err) =
     (status, [], header, Some (''failed to read response body: '' @ err))"
| "executeRequest (Response status body header) = (status, body, header, None)"

text \<open>
  The world of one call of \<open>Execute\<close>: what each attempt meets, whether the context is
  done first while the client sleeps after an attempt, the milliseconds elapsed when an
  attempt returns, and the decoding of a JSON object into its top-level keys with each
  value formatted by \<open>%v\<close> (\<open>None\<close> when \<open>json.Unmarshal\<close> fails).
\<close>

record World =
  roundTrip :: "int \<Rightarrow> Transport"
  cancelled :: "int \<Rightarrow> bool"
  sinceStart :: "int \<Rightarrow> int"
  Unmarshal :: "string \<Rightarrow> (string \<rightharpoonup> string) option"

record Client =
  requestConfig :: RequestConfig
  maxRetries :: int

definition NewClient :: "RequestConfig \<Rightarrow> Client" where
  "NewClient rc = \<lparr>requestConfig = rc, maxRetries = 3\<rparr>"

definition shouldRetry :: "string option \<Rightarrow> int \<Rightarrow> bool" where
  "shouldRetry err statusCode =
     (if statusCode = 0 then True
      else if statusCode \<ge> 500 \<and> statusCode < 600 then True
      else if statusCode = 429 then True
      else False)"

definition categorizeError :: "string \<Rightarrow> string" where
  \<comment> \<open>for an error that is not nil\<close>
  "categorizeError errStr =
     (if Contains errStr ''timeout'' then ''timeout''
      else if Contains errStr ''connection refused'' then ''connection_refused''
      else if Contains errStr ''no such host'' then ''dns_error''
      else if Contains errStr ''context canceled'' then ''canceled''
      else if Contains errStr ''context deadline exceeded'' then ''timeout''
      else ''unknown'')"

definition truncateResponse :: "string \<Rightarrow> string" where
  "truncateResponse body = (if length body \<le> 200 then body else take 200 body @ ''...'')"

definition checkResponseConditions :: "World \<Rightarrow> RequestConfig \<Rightarrow> string \<Rightarrow> bool" where
  "checkResponseConditions W rc responseBody =
     (if length (ResponseKeys rc) = 0 then True
      else case Unmarshal W responseBody of
             None \<Rightarrow> False
           | Some jsonData \<Rightarrow>
               list_all (\<lambda>(key, expectedValue).
                           case jsonData key of
                             None \<Rightarrow> False
                           | Some actualValue \<Rightarrow> actualValue = expectedValue)
                        (ResponseKeys rc))"

function attempts ::
  "Client \<Rightarrow> World \<Rightarrow> int \<Rightarrow> RequestResult \<times> string option
     \<Rightarrow> bool \<times> RequestResult \<times> string option" where
  \<comment> \<open>the loop of \<open>Execute\<close> from attempt number \<open>attempt\<close> on, over the result and
      \<open>lastErr\<close>; the flag is true when the loop leaves by \<open>return result\<close>\<close>
  "attempts c W attempt (result0, lastErr) =
     (if attempt \<le> maxRetries c then
        (let result = result0\<lparr>Retries := attempt\<rparr>;
             (statusCode, responseBody, headers, err) = executeRequest (roundTrip W attempt);
             result = result\<lparr>StatusCode := statusCode, LatencyMs := sinceStart W attempt\<rparr>;
             result = result\<lparr>RHeaders :=
                        foldl (\<lambda>m (k, v). if length v > 0 then AList.update k (v ! 0) m else m)
                              (RHeaders result) headers\<rparr>
         in
         case err of
           Some e \<Rightarrow>
             (let result = result\<lparr>ErrorCategory := categorizeError e, ErrorDetail := e\<rparr> in
              if \<not> shouldRetry err statusCode then (False, result, err)
              else if attempt < maxRetries c then
                (if cancelled W attempt then (True, result, err)
                 else attempts c W (attempt + 1) (result, err))
              else attempts c W (attempt + 1) (result, err))
         | None \<Rightarrow>
             (let result = result\<lparr>Success := IsSuccessStatus (requestConfig c) statusCode,
                                   ResponsePreview := truncateResponse responseBody\<rparr>;
                  result = (if Success result \<and> length (ResponseKeys (requestConfig c)) > 0
                            then result\<lparr>Success :=
                                   checkResponseConditions W (requestConfig c) responseBody\<rparr>
                            else result)
              in (False, result, lastErr)))
      else (False, result0, lastErr))"
  by pat_completeness auto
termination
  by (relation "measure (\<lambda>(c, W, attempt, st). nat (maxRetries c + 1 - attempt))") auto

declare attempts.simps [simp del]

definition Execute :: "Client \<Rightarrow> World \<Rightarrow> RequestData \<Rightarrow> string \<Rightarrow> RequestResult" where
  "Execute c W requestData requestID =
     (let (returned, result, lastErr) =
            attempts c W 0
              (\<lparr>StatusCode = 0, Success = False, LatencyMs = 0, Retries = 0, ErrorCategory = [],
                ErrorDetail = [], ResponsePreview = [], RHeaders = [], RequestID = requestID\<rparr>,
               None)
      in if returned then result
         else (case lastErr of
                 Some e \<Rightarrow>
                   if ErrorCategory result = []
                   then result\<lparr>ErrorCategory := categorizeError e, ErrorDetail := e\<rparr>
                   else result
               | None \<Rightarrow> result))"

text \<open>
  The backoff. A \<open>time.Duration\<close> is a signed 64-bit count of nanoseconds, and its
  arithmetic wraps. \<open>rand.Float64()\<close> returns \<open>k / 2^53\<close> for an integer \<open>0 \<le> k < 2^53\<close>; the
  two draws are given by their integers \<open>k1\<close> and \<open>k2\<close>. In
  \<open>rand.Float64() * 0.5 * float64(delay)\<close> the first product is exact, \<open>k1 / 2^54\<close>; the
  conversion \<open>float64(delay)\<close> and the second product round to 53 significant bits, ties to
  the even significand; the conversion back to a duration truncates towards zero.
  \<open>math.Pow(2, attempt)\<close> converts exactly up to \<open>attempt = 62\<close> and to 0 below 0; from 63
  on Go leaves the conversion to the platform, and the delay is 0 both on amd64 and here.
\<close>

definition wrap64 :: "int \<Rightarrow> int" where
  "wrap64 x = (x + 2 ^ 63) mod 2 ^ 64 - 2 ^ 63"

fun bitLength :: "nat \<Rightarrow> nat" where
  \<comment> \<open>the number of binary digits\<close>
  "bitLength n = (if n = 0 then 0 else Suc (bitLength (n div 2)))"

declare bitLength.simps [simp del]

definition roundBits :: "int \<Rightarrow> int" where
  \<comment> \<open>the nearest integer with at most 53 significant bits, ties to the even significand:
      the rounding of \<open>float64\<close>, on an exact result scaled to an integer by a power of two\<close>
  "roundBits n =
     (let a = nat \<bar>n\<bar>; b = bitLength a in
      if b \<le> 53 then n
      else
        let s = b - 53; q = a div 2 ^ s; r = a mod 2 ^ s;
            q = (if 2 * r > 2 ^ s \<or> (2 * r = 2 ^ s \<and> odd q) then q + 1 else q)
        in sgn n * int (q * 2 ^ s))"

definition Second :: int where
  "Second = 1000000000"

definition calculateBackoff :: "nat \<Rightarrow> nat \<Rightarrow> int \<Rightarrow> int" where
  "calculateBackoff k1 k2 attempt =
     (let baseDelay = Second;
          delay = wrap64 (wrap64 (if attempt < 0 then 0 else 2 ^ nat attempt) * baseDelay);
          product = roundBits (int k1 * roundBits delay);
          jitter = sgn product * (\<bar>product\<bar> div 2 ^ 54);
          delay = (if k2 < 2 ^ 52 then wrap64 (delay - jitter) else wrap64 (delay + jitter))
      in if delay > 30 * Second then 30 * Second else delay)"

section \<open>The runner\<close>

record RowTask =
  RowNumber :: int
  TaskData :: "string \<rightharpoonup> string"
  TaskRequestID :: string

record RunResult =
  TotalRows :: int
  SuccessRows :: int
  FailedRows :: int
  SkippedRows :: int

text \<open>
  The runner with what it owns: its validator, whether it has a rate limiter, and the
  checkpoints (the request hashes already processed). The run threads it together with the
  counters and with the list of the calls of the callback, each call being the row number,
  the validation result and the request result.
\<close>

record Runner =
  runnerConfig :: RequestConfig
  validator :: Validator
  limiter :: bool
  checkpoints :: "string set"

type_synonym Call = "int \<times> ValidationResult \<times> RequestResult"

record RunState =
  runner :: Runner
  result :: RunResult
  calls :: "Call list"

text \<open>
  The surroundings of the runner: the library, the template engine \<open>T\<close>, the digest \<open>H\<close>,
  whether a callback was given, and for each task (by its row number) whether the context
  is already done when a worker takes the task, whether the wait on the rate limiter
  succeeds, and what the network does to the request of the task.
\<close>

record Env =
  lib :: GoLib
  engine :: "string \<Rightarrow> (string \<times> string) list \<Rightarrow> string + string"
  digest :: "string \<Rightarrow> string"
  callbackGiven :: bool
  ctxDone :: "int \<Rightarrow> bool"
  waitOK :: "int \<Rightarrow> bool"
  world :: "int \<Rightarrow> World"

definition NewRunner :: "Schema \<Rightarrow> RequestConfig \<Rightarrow> bool \<Rightarrow> Runner" where
  \<comment> \<open>the third argument: \<open>runConfig.RateLimit > 0\<close>\<close>
  "NewRunner s rc rateLimited =
     \<lparr>runnerConfig = rc, validator = NewValidator s, limiter = rateLimited, checkpoints = {}\<rparr>"

definition LoadCheckpoints :: "Runner \<Rightarrow> string set \<Rightarrow> Runner" where
  "LoadCheckpoints r hashes = r\<lparr>checkpoints := checkpoints r \<union> hashes\<rparr>"

definition isAlreadyProcessed :: "Runner \<Rightarrow> string \<Rightarrow> bool" where
  "isAlreadyProcessed r hash = (hash \<in> checkpoints r)"

definition markAsProcessed :: "Runner \<Rightarrow> string \<Rightarrow> Runner" where
  "markAsProcessed r hash = r\<lparr>checkpoints := insert hash (checkpoints r)\<rparr>"

definition invoke :: "Env \<Rightarrow> Call \<Rightarrow> RunState \<Rightarrow> RunState" where
  \<comment> \<open>\<open>if callback != nil { callback(...) }\<close>\<close>
  "invoke E call st = (if callbackGiven E then st\<lparr>calls := calls st @ [call]\<rparr> else st)"

definition processTask :: "Env \<Rightarrow> RunState \<Rightarrow> RowTask \<Rightarrow> RunState option" where
  \<comment> \<open>\<open>None\<close> for a panic of the validator\<close>
  "processTask E st task =
     (if limiter (runner st) \<and> \<not> waitOK E (RowNumber task) then Some st
      else
        case ValidateRow (lib E) (validator (runner st)) (RowNumber task) (TaskData task) of
          None \<Rightarrow> None
        | Some (validationResult, v) \<Rightarrow>
            let st = st\<lparr>runner := (runner st)\<lparr>validator := v\<rparr>\<rparr> in
            if Valid validationResult then
              (let requestHash = generateRequestHash (digest E) (runnerConfig (runner st))
                                   (Data validationResult)
               in
               if isAlreadyProcessed (runner st) requestHash then
                 Some (st\<lparr>result := (result st)\<lparr>SkippedRows := SkippedRows (result st) + 1\<rparr>\<rparr>)
               else
                 case Render (engine E) (digest E) (runnerConfig (runner st))
                        (Data validationResult) of
                   Inl err \<Rightarrow>
                     Some (invoke E
                       (RowNumber task, validationResult,
                        \<lparr>StatusCode = 0, Success = False, LatencyMs = 0, Retries = 0,
                         ErrorCategory = ''template_error'', ErrorDetail = err,
                         ResponsePreview = [], RHeaders = [],
                         RequestID = TaskRequestID task\<rparr>) st)
                 | Inr requestData \<Rightarrow>
                     let requestResult =
                           Execute (NewClient (runnerConfig (runner st)))
                             (world E (RowNumber task))
                             (requestData\<lparr>dHash := requestHash\<rparr>) (TaskRequestID task);
                         st = (if Success requestResult then
                                 st\<lparr>runner := markAsProcessed (runner st) requestHash,
                                    result := (result st)\<lparr>SuccessRows :=
                                                SuccessRows (result st) + 1\<rparr>\<rparr>
                               else
                                 st\<lparr>result := (result st)\<lparr>FailedRows :=
                                                FailedRows (result st) + 1\<rparr>\<rparr>)
                     in Some (invoke E (RowNumber task, validationResult, requestResult) st))
            else
              Some (invoke E
                (RowNumber task, validationResult,
                 \<lparr>StatusCode = 0, Success = False, LatencyMs = 0, Retries = 0,
                  ErrorCategory = ''validation_error'', ErrorDetail = ''Row validation failed'',
                  ResponsePreview = [], RHeaders = [], RequestID = TaskRequestID task\<rparr>)
                (st\<lparr>result := (result st)\<lparr>FailedRows := FailedRows (result st) + 1\<rparr>\<rparr>)))"

text \<open>
  One worker (concurrency 1), so that the tasks are processed one after the other in the
  order of the queue: the feeder counts every task it hands over, and the worker takes the
  tasks until the queue is closed or it finds the context done.
\<close>

fun worker :: "Env \<Rightarrow> RunState \<Rightarrow> RowTask list \<Rightarrow> RunState option" where
  "worker E st [] = Some st"
| "worker E st (task # tasks) =
     (if ctxDone E (RowNumber task) then Some st
      else case processTask E st task of
             None \<Rightarrow> None
           | Some st' \<Rightarrow> worker E st' tasks)"

definition Run :: "Env \<Rightarrow> Runner \<Rightarrow> RowTask list \<Rightarrow> RunState option" where
  \<comment> \<open>the tasks are those the feeder has put on the queue\<close>
  "Run E r tasks =
     worker E
       \<lparr>runner = r,
        result = \<lparr>TotalRows = int (length tasks), SuccessRows = 0, FailedRows = 0,
                  SkippedRows = 0\<rparr>,
        calls = []\<rparr>
       tasks"

section \<open>The failed rows of the logger\<close>

record FailedRow =
  FailedRowNumber :: int
  FailedData :: "(string \<times> string) list"
  Reason :: string

definition GetColumnNames :: "Schema \<Rightarrow> string list" where
  "GetColumnNames s = map Name (Columns s)"

definition LogRequest :: "int \<Rightarrow> ValidationResult \<Rightarrow> RequestResult option \<Rightarrow> FailedRow list" where
  \<comment> \<open>what \<open>LogRequest\<close> appends to \<open>l.failedRows\<close> through \<open>addFailedRow\<close>; its entries for
      the log channels are left out\<close>
  "LogRequest rowNum validationResult requestResult =
     (if \<not> Valid validationResult
      then [\<lparr>FailedRowNumber = rowNum, FailedData = Data validationResult,
             Reason = ''validation_failed''\<rparr>]
      else [])
     @ (case requestResult of
          None \<Rightarrow> []
        | Some rr \<Rightarrow>
            if \<not> Success rr
            then [\<lparr>FailedRowNumber = rowNum, FailedData = Data validationResult,
                   Reason = (if ErrorCategory rr = [] then ''request_failed''
                             else ErrorCategory rr)\<rparr>]
            else [])"

definition exportRecord :: "Schema \<Rightarrow> FailedRow \<Rightarrow> string list" where
  \<comment> \<open>the record that \<open>ExportFailedRows\<close> writes for a failed row: a cell for each column of
      the schema, empty when the data has no entry for the column, and the reason\<close>
  "exportRecord s failedRow =
     map (\<lambda>colName. case map_of (FailedData failedRow) colName of
                       Some value \<Rightarrow> value
                     | None \<Rightarrow> [])
         (GetColumnNames s)
     @ [Reason failedRow]"

definition loggedFailedRows :: "Call list \<Rightarrow> FailedRow list" where
  \<comment> \<open>the failed rows after the callback of the \<open>run\<close> command, which hands every call to
      \<open>LogRequest\<close>\<close>
  "loggedFailedRows cs =
     concat (map (\<lambda>(rowNum, validationResult, requestResult).
                    LogRequest rowNum validationResult (Some requestResult)) cs)"

section \<open>Inputs of the examples\<close>

definition okStatuses :: "int list" where
  \<comment> \<open>the default of \<open>validateRequestConfig\<close>\<close>
  "okStatuses = [200, 201, 202, 203, 204, 205, 206, 207, 208, 226]"

definition postConfig :: "string \<Rightarrow> (string \<times> string) list \<Rightarrow> RequestConfig" where
  \<comment> \<open>\<open>POST\<close> to the URL with the headers, a fixed body and the default statuses\<close>
  "postConfig url headers =
     \<lparr>Method = ''POST'', URL = url, Headers = headers, Body = ''hello'', Proxy = [],
      StatusIn = okStatuses, ResponseKeys = []\<rparr>"

definition server :: "int list \<Rightarrow> World" where
  \<comment> \<open>a server that answers the attempts with the statuses of the list in turn, and with
      the last of them from then on (with 200 when the list is empty); nothing is cancelled\<close>
  "server statuses =
     \<lparr>roundTrip = (\<lambda>attempt.
        Response (if statuses = [] then 200
                  else if nat attempt < length statuses then statuses ! nat attempt
                  else last statuses) [] []),
      cancelled = (\<lambda>attempt. False), sinceStart = (\<lambda>attempt. 0),
      Unmarshal = (\<lambda>body. None)\<rparr>"

definition someRequest :: RequestData where
  "someRequest =
     \<lparr>dURL = ''http://api/x'', dMethod = ''POST'', dHeaders = [], dBody = ''hello'',
      dProxy = [], dHash = []\<rparr>"

definition plainEngine :: "string \<Rightarrow> (string \<times> string) list \<Rightarrow> string + string" where
  \<comment> \<open>the template engine on the templates of the examples: a text without an action is
      rendered as it is, and the one action of the examples, a field of a string value, fails\<close>
  "plainEngine tmpl data =
     (if Contains tmpl ''{{'' then Inl ''can not evaluate field of type string'' else Inr tmpl)"

definition exampleEnv :: "(string \<Rightarrow> string) \<Rightarrow> Env" where
  \<comment> \<open>a callback is given, nothing is cancelled, there is no rate limiter to wait for,
      and the server answers 200\<close>
  "exampleEnv H =
     \<lparr>lib = stubLib, engine = plainEngine, digest = H, callbackGiven = True,
      ctxDone = (\<lambda>row. False), waitOK = (\<lambda>row. True), world = (\<lambda>row. server [200])\<rparr>"

definition nameSchema :: Schema where
  "nameSchema =
     \<lparr>Columns = [stringColumn ''name'' True], RowRules = [], Uniqueness = [],
      NullPolicy = \<lparr>TreatEmptyAsNull = True\<rparr>\<rparr>"

definition aliceTask :: "int \<Rightarrow> RowTask" where
  "aliceTask n = \<lparr>RowNumber = n, TaskData = [''name'' \<mapsto> ''Alice''], TaskRequestID = ''req''\<rparr>"

definition hangul_ga :: string where
  \<comment> \<open>the one code point U+AC00 in UTF-8\<close>
  "hangul_ga = [CHR 0xEA, CHR 0xB0, CHR 0x80]"

definition contactSchema :: Schema where
  \<comment> \<open>an optional phone that must be unique, and a required email\<close>
  "contactSchema =
     \<lparr>Columns = [stringColumn ''phone'' False, stringColumn ''email'' True], RowRules = [],
      Uniqueness = [\<lparr>UniqueColumns = [''phone'']\<rparr>],
      NullPolicy = \<lparr>TreatEmptyAsNull = False\<rparr>\<rparr>"

definition codeSchema :: Schema where
  \<comment> \<open>one required column of at most three bytes\<close>
  "codeSchema =
     \<lparr>Columns = [(stringColumn ''code'' True)\<lparr>MaxLen := Some 3\<rparr>], RowRules = [],
      Uniqueness = [], NullPolicy = \<lparr>TreatEmptyAsNull = True\<rparr>\<rparr>"

definition codeTask :: RowTask where
  \<comment> \<open>row 1 with a code of six bytes\<close>
  "codeTask = \<lparr>RowNumber = 1, TaskData = [''code'' \<mapsto> ''abcdef''], TaskRequestID = ''req''\<rparr>"

section \<open>Notions for the statements\<close>

definition columnErrors ::
  "GoLib \<Rightarrow> Schema \<Rightarrow> int \<Rightarrow> (string \<rightharpoonup> string) \<Rightarrow> ColumnSchema \<Rightarrow> ValidationError list" where
  \<comment> \<open>the errors that the body of the loop of \<open>ValidateRow\<close> appends for one column\<close>
  "columnErrors L sch rowNum data c =
     (case columnOutcome L sch data c of
        Inl (value, message) \<Rightarrow>
          [\<lparr>Row = rowNum, Column = Name c, Value = value, Message = message\<rparr>]
      | Inr x \<Rightarrow> [])"

definition uniqueColumns :: "Schema \<Rightarrow> string list" where
  \<comment> \<open>the columns that \<open>checkUniqueness\<close> visits, in its order\<close>
  "uniqueColumns s = concat (map UniqueColumns (Uniqueness s))"

definition reaches :: "GoLib \<Rightarrow> Schema \<Rightarrow> int \<times> (string \<rightharpoonup> string) \<Rightarrow> bool" where
  \<comment> \<open>the row has no error after the loop over the columns, so that \<open>ValidateRow\<close> calls
      \<open>checkUniqueness\<close> on it\<close>
  "reaches L s row = Valid (columnPhase L s (fst row) (snd row))"

definition valueAt :: "GoLib \<Rightarrow> Schema \<Rightarrow> int \<times> (string \<rightharpoonup> string) \<Rightarrow> string \<Rightarrow> string" where
  \<comment> \<open>the normalized value of the row in a column, \<open>result.Data[col]\<close>\<close>
  "valueAt L s row col = lookup (Data (columnPhase L s (fst row) (snd row))) col"

definition duplicates ::
  "int \<Rightarrow> (string \<times> string) list \<Rightarrow> (string \<rightharpoonup> string set) \<Rightarrow> string list \<Rightarrow> ValidationError list" where
  \<comment> \<open>the duplicate errors of a row with the data, against the values seen\<close>
  "duplicates rowNum data sn cols =
     concat (map (\<lambda>col. if lookup data col \<noteq> [] \<and> lookup data col \<in> the (sn col)
                        then [duplicateError rowNum col (lookup data col)] else []) cols)"

definition record_values ::
  "(string \<times> string) list \<Rightarrow> (string \<rightharpoonup> string set) \<Rightarrow> string list \<Rightarrow> (string \<rightharpoonup> string set)" where
  \<comment> \<open>the values seen, with the non-empty values of the data in the columns added\<close>
  "record_values data sn cols =
     (\<lambda>col. if col \<in> set cols \<and> lookup data col \<noteq> []
            then Some (insert (lookup data col) (the (sn col))) else sn col)"

definition seenBy ::
  "GoLib \<Rightarrow> Schema \<Rightarrow> (int \<times> (string \<rightharpoonup> string)) list \<Rightarrow> string \<Rightarrow> string set" where
  \<comment> \<open>the non-empty values that the rows reaching the uniqueness check have in a column\<close>
  "seenBy L s rows col = {x. x \<noteq> [] \<and> (\<exists>row \<in> set rows. reaches L s row \<and> valueAt L s row col = x)}"

definition skips :: "Env \<Rightarrow> Runner \<Rightarrow> ValidationResult \<Rightarrow> bool" where
  \<comment> \<open>the row is valid and its request hash is among the checkpoints\<close>
  "skips E r vr =
     (Valid vr \<and> isAlreadyProcessed r (generateRequestHash (digest E) (runnerConfig r) (Data vr)))"

definition renderFails :: "Env \<Rightarrow> Runner \<Rightarrow> ValidationResult \<Rightarrow> bool" where
  \<comment> \<open>the row is valid and the renderer returns an error on its data\<close>
  "renderFails E r vr =
     (Valid vr \<and> isl (Render (engine E) (digest E) (runnerConfig r) (Data vr)))"

definition handled :: "RunResult \<Rightarrow> int" where
  "handled res = SuccessRows res + FailedRows res + SkippedRows res"

definition refusing :: World where
  \<comment> \<open>two refused connections, then a server that answers 200\<close>
  "refusing =
     \<lparr>roundTrip = (\<lambda>attempt. if attempt < 2 then DoFailed ''dial tcp: connection refused''
                               else Response 200 ''ok'' []),
      cancelled = (\<lambda>attempt. False), sinceStart = (\<lambda>attempt. 0),
      Unmarshal = (\<lambda>body. None)\<rparr>"

definition initialised :: "Validator \<Rightarrow> bool" where
  \<comment> \<open>every column of a uniqueness rule has its inner map, as \<open>NewValidator\<close> leaves it\<close>
  "initialised v = list_all (\<lambda>col. seen v col \<noteq> None) (uniqueColumns (schema v))"

section \<open>Properties\<close>

subsection \<open>The two E.164 functions\<close>

lemma isDigit_iff: "isDigit c \<longleftrightarrow> c \<in> set ''0123456789''"
  by (cases c) (auto simp: isDigit_def)

lemma filter_digits: "filter (\<lambda>c. c \<in> set ''0123456789'') s = removeNonDigits s"
  unfolding removeNonDigits_def by (rule filter_cong) (simp_all only: isDigit_iff)

lemma e164_branch:
  "(if length ds = 10 \<and> HasPrefix ds ''0'' then ''+82'' @ drop 1 ds
    else if length ds = 11 \<and> HasPrefix ds ''01'' then ''+82'' @ drop 1 ds else ds)
   = (case ds of [] \<Rightarrow> ds | d # rest \<Rightarrow>
        if d = CHR ''0'' \<and> (length ds = 10 \<or> (length ds = 11 \<and> take 1 rest = ''1''))
        then ''+82'' @ rest else ds)"
proof (cases ds)
  case Nil
  then show ?thesis by (simp add: HasPrefix_def)
next
  case (Cons d rest)
  then show ?thesis by (cases rest) (auto simp: HasPrefix_def)
qed

subsection \<open>The loop over the columns\<close>

lemma Errors_columnStep:
  "Errors (columnStep L sch n d r c) = Errors r @ columnErrors L sch n d c"
  by (simp add: columnStep_def columnErrors_def split: sum.splits prod.splits)

lemma Valid_columnStep:
  "Valid (columnStep L sch n d r c) \<longleftrightarrow> Valid r \<and> columnErrors L sch n d c = []"
  by (simp add: columnStep_def columnErrors_def split: sum.splits prod.splits)

lemma Errors_foldl_columnStep:
  "Errors (foldl (columnStep L sch n d) r cs) = Errors r @ concat (map (columnErrors L sch n d) cs)"
  by (induction cs arbitrary: r) (simp_all add: Errors_columnStep)

lemma Valid_foldl_columnStep:
  "Valid (foldl (columnStep L sch n d) r cs)
     \<longleftrightarrow> Valid r \<and> concat (map (columnErrors L sch n d) cs) = []"
  by (induction cs arbitrary: r) (auto simp: Valid_columnStep)

lemma Errors_columnPhase:
  "Errors (columnPhase L sch n d) = concat (map (columnErrors L sch n d) (Columns sch))"
  by (simp add: columnPhase_def Errors_foldl_columnStep)

lemma Valid_columnPhase:
  "Valid (columnPhase L sch n d) \<longleftrightarrow> Errors (columnPhase L sch n d) = []"
  by (simp add: columnPhase_def Valid_foldl_columnStep Errors_foldl_columnStep)

lemma Column_columnErrors: "e \<in> set (columnErrors L sch n d c) \<Longrightarrow> Column e = Name c"
  by (auto simp: columnErrors_def split: sum.splits prod.splits)

lemma filter_columnErrors_other:
  "Name c \<noteq> k \<Longrightarrow> filter (\<lambda>e. Column e = k) (columnErrors L sch n d c) = []"
  by (auto simp: filter_empty_conv dest: Column_columnErrors)

lemma filter_columnErrors_same:
  "filter (\<lambda>e. Column e = Name c) (columnErrors L sch n d c) = columnErrors L sch n d c"
  by (auto simp: filter_id_conv dest: Column_columnErrors)

lemma filter_concat_columnErrors:
  assumes "distinct (map Name cs)" "c \<in> set cs"
  shows "filter (\<lambda>e. Column e = Name c) (concat (map (columnErrors L sch n d) cs))
           = columnErrors L sch n d c"
  using assms
proof (induction cs)
  case Nil
  then show ?case by simp
next
  case (Cons a cs)
  show ?case
  proof (cases "a = c")
    case True
    then have "\<forall>b \<in> set cs. Name b \<noteq> Name c" using Cons.prems by (auto simp: image_iff)
    then have "filter (\<lambda>e. Column e = Name c) (concat (map (columnErrors L sch n d) cs)) = []"
      by (auto simp: filter_empty_conv dest: Column_columnErrors)
    with True show ?thesis by (simp add: filter_columnErrors_same)
  next
    case False
    then have "c \<in> set cs" "Name a \<noteq> Name c" using Cons.prems by auto
    then show ?thesis using Cons by (simp add: filter_columnErrors_other)
  qed
qed

lemma columnErrors_required_empty:
  assumes "Required c" "data (Name c) = Some [] \<or> data (Name c) = None"
  shows "columnErrors L sch n data c
           = [\<lparr>Row = n, Column = Name c, Value = [], Message = ''required field is missing or empty''\<rparr>]"
  using assms by (auto simp: columnErrors_def columnOutcome_def)

lemma keys_columnStep:
  "fst ` set (Data (columnStep L sch n d r c))
     = fst ` set (Data r) \<union> (if columnErrors L sch n d c = [] then {Name c} else {})"
  by (auto simp: columnStep_def columnErrors_def dom_update split: sum.splits prod.splits)

lemma keys_foldl_columnStep:
  "fst ` set (Data (foldl (columnStep L sch n d) r cs))
     = fst ` set (Data r) \<union> Name ` {c \<in> set cs. columnErrors L sch n d c = []}"
  by (induction cs arbitrary: r) (auto simp: keys_columnStep)

lemma map_of_columnStep:
  "map_of (Data (columnStep L sch n d r c)) k
     = (case columnOutcome L sch d c of
          Inl e \<Rightarrow> map_of (Data r) k
        | Inr x \<Rightarrow> if k = Name c then Some x else map_of (Data r) k)"
  by (simp add: columnStep_def update_conv' split: sum.splits prod.splits)

lemma map_of_foldl_other:
  "k \<notin> Name ` set cs
     \<Longrightarrow> map_of (Data (foldl (columnStep L sch n d) r cs)) k = map_of (Data r) k"
  by (induction cs arbitrary: r) (auto simp: map_of_columnStep split: sum.splits)

lemma map_of_foldl_columnStep:
  assumes "distinct (map Name cs)" "c \<in> set cs"
  shows "map_of (Data (foldl (columnStep L sch n d) r cs)) (Name c)
           = (case columnOutcome L sch d c of
                Inl e \<Rightarrow> map_of (Data r) (Name c)
              | Inr x \<Rightarrow> Some x)"
  using assms
proof (induction cs arbitrary: r)
  case Nil
  then show ?case by simp
next
  case (Cons a cs)
  show ?case
  proof (cases "a = c")
    case True
    then have "Name c \<notin> Name ` set cs" using Cons.prems by auto
    then show ?thesis using True
      by (simp add: map_of_foldl_other map_of_columnStep split: sum.splits)
  next
    case False
    then have "c \<in> set cs" "Name a \<noteq> Name c" "distinct (map Name cs)"
      using Cons.prems by (auto simp: image_iff)
    then show ?thesis using Cons.IH [of "columnStep L sch n d r a"]
      by (simp add: map_of_columnStep split: sum.splits)
  qed
qed

lemma Data_checkColumns:
  "checkColumns n cols (r, sn) = Some (r', sn') \<Longrightarrow> Data r' = Data r"
  by (induction n cols "(r, sn)" arbitrary: r sn rule: checkColumns.induct)
     (auto simp: Let_def split: if_splits option.splits)

lemma Data_checkUniqueness:
  "checkUniqueness n rules (r, sn) = Some (r', sn') \<Longrightarrow> Data r' = Data r"
  by (induction rules arbitrary: r sn) (auto split: option.splits dest: Data_checkColumns)

lemma Data_ruleStep: "Data (ruleStep L n r a) = Data r"
  by (simp add: ruleStep_def)

lemma Data_validateRowRules: "Data (validateRowRules L n rules r) = Data r"
  unfolding validateRowRules_def by (induction rules arbitrary: r) (simp_all add: Data_ruleStep)

lemma Valid_validateRowRules: "Valid (validateRowRules L n rules r) \<Longrightarrow> Valid r"
  unfolding validateRowRules_def
proof (induction rules arbitrary: r)
  case Nil
  then show ?case by simp
next
  case (Cons a rules)
  from Cons.prems have "Valid (foldl (ruleStep L n) (ruleStep L n r a) rules)" by simp
  then have "Valid (ruleStep L n r a)" by (rule Cons.IH)
  then show ?case by (simp add: ruleStep_def split: if_splits)
qed

lemma Valid_checkColumns:
  "checkColumns n cols (r, sn) = Some (r', sn') \<Longrightarrow> Valid r' \<Longrightarrow> Valid r"
  by (induction n cols "(r, sn)" arbitrary: r sn rule: checkColumns.induct)
     (auto simp: Let_def split: if_splits option.splits)

lemma ValidateRow_invalid:
  assumes "\<not> Valid (columnPhase L (schema v) n d)"
  shows "ValidateRow L v n d = Some (columnPhase L (schema v) n d, v)"
  using assms by (simp add: ValidateRow_def)

lemma ValidateRow_valid:
  assumes "Valid (columnPhase L (schema v) n d)"
  shows "ValidateRow L v n d
           = (case checkUniqueness n (Uniqueness (schema v)) (columnPhase L (schema v) n d, seen v) of
                None \<Rightarrow> None
              | Some (r, sn) \<Rightarrow>
                  Some (if Valid r then validateRowRules L n (RowRules (schema v)) r else r,
                        v\<lparr>seen := sn\<rparr>))"
  using assms by (simp add: ValidateRow_def Let_def)

lemma Data_ValidateRow:
  assumes "ValidateRow L v n d = Some (r, v')"
  shows "Data r = Data (columnPhase L (schema v) n d)"
proof (cases "Valid (columnPhase L (schema v) n d)")
  case True
  with assms obtain r1 sn where
    u: "checkUniqueness n (Uniqueness (schema v)) (columnPhase L (schema v) n d, seen v) = Some (r1, sn)"
    and r: "r = (if Valid r1 then validateRowRules L n (RowRules (schema v)) r1 else r1)"
    by (auto simp: ValidateRow_valid split: option.splits)
  from r have "Data r = Data r1" by (simp add: Data_validateRowRules)
  with u show ?thesis by (simp add: Data_checkUniqueness)
next
  case False
  then show ?thesis using assms by (auto simp: ValidateRow_invalid)
qed

lemma Valid_ValidateRow:
  assumes "ValidateRow L v n d = Some (r, v')" "Valid r"
  shows "Valid (columnPhase L (schema v) n d)"
proof (rule ccontr)
  assume inv: "\<not> Valid (columnPhase L (schema v) n d)"
  then have "ValidateRow L v n d = Some (columnPhase L (schema v) n d, v)"
    by (rule ValidateRow_invalid)
  with assms inv show False by auto
qed

lemma columnOutcome_absent_optional:
  assumes "\<not> Required c" "data (Name c) = None \<or> data (Name c) = Some []"
  shows "columnOutcome L sch data c = Inr []"
  using assms by (auto simp: columnOutcome_def)

lemma validateValue_length_in_bytes:
  assumes "validateType L value (Type c) (Format c) = None"
    and "MinLen c = None" "MaxLen c = Some m" "int (length value) > m"
  shows "validateValue L value c = Some (''value too long (max '' @ Itoa m @ '' characters)'')"
  using assms by (simp add: validateValue_def)

subsection \<open>The uniqueness check\<close>

lemma duplicates_Nil [simp]: "duplicates n data sn [] = []"
  by (simp add: duplicates_def)

lemma duplicates_Cons:
  "duplicates n data sn (col # cols)
     = (if lookup data col \<noteq> [] \<and> lookup data col \<in> the (sn col)
        then [duplicateError n col (lookup data col)] else []) @ duplicates n data sn cols"
  by (simp add: duplicates_def)

lemma duplicates_upd:
  "col \<notin> set cols \<Longrightarrow> duplicates n data (sn(col \<mapsto> vs)) cols = duplicates n data sn cols"
  unfolding duplicates_def by (intro arg_cong [where f = concat] map_cong) auto

lemma record_values_Nil [simp]: "record_values data sn [] = sn"
  by (simp add: record_values_def)

lemma checkColumns_eq:
  assumes "distinct cols" "\<forall>col \<in> set cols. sn col \<noteq> None"
  shows "checkColumns n cols (r, sn)
           = Some (r\<lparr>Valid := Valid r \<and> duplicates n (Data r) sn cols = [],
                     Errors := Errors r @ duplicates n (Data r) sn cols\<rparr>,
                   record_values (Data r) sn cols)"
  using assms
proof (induction cols arbitrary: r sn)
  case Nil
  then show ?case by simp
next
  case (Cons col cols)
  let ?x = "lookup (Data r) col"
  from Cons.prems obtain vs where vs: "sn col = Some vs" by auto
  from Cons.prems have notin: "col \<notin> set cols" and dist: "distinct cols"
    and dom: "\<forall>c \<in> set cols. sn c \<noteq> None" by auto
  show ?case
  proof (cases "?x = []")
    case True
    have "record_values (Data r) sn (col # cols) = record_values (Data r) sn cols"
      using True by (auto simp: record_values_def fun_eq_iff)
    then show ?thesis using True Cons.IH [OF dist dom, of r]
      by (simp add: duplicates_Cons)
  next
    case False
    show ?thesis
    proof (cases "?x \<in> vs")
      case True
      let ?r1 = "r\<lparr>Valid := False, Errors := Errors r @ [duplicateError n col ?x]\<rparr>"
      have rv: "record_values (Data r) sn (col # cols) = record_values (Data r) sn cols"
        using True vs notin by (auto simp: record_values_def fun_eq_iff insert_absorb)
      have "checkColumns n (col # cols) (r, sn) = checkColumns n cols (?r1, sn)"
        using False True vs by (simp add: duplicateError_def)
      also have "\<dots> = Some (?r1\<lparr>Valid := Valid ?r1 \<and> duplicates n (Data ?r1) sn cols = [],
                     Errors := Errors ?r1 @ duplicates n (Data ?r1) sn cols\<rparr>,
                   record_values (Data ?r1) sn cols)"
        by (rule Cons.IH [OF dist dom])
      finally show ?thesis using False True vs rv by (simp add: duplicates_Cons)
    next
      case nseen: False
      let ?sn1 = "sn(col \<mapsto> insert ?x vs)"
      have dom1: "\<forall>c \<in> set cols. ?sn1 c \<noteq> None" using dom by auto
      have rv: "record_values (Data r) sn (col # cols) = record_values (Data r) ?sn1 cols"
        using False vs notin by (auto simp: record_values_def fun_eq_iff)
      have "checkColumns n (col # cols) (r, sn) = checkColumns n cols (r, ?sn1)"
        using False nseen vs by simp
      also have "\<dots> = Some (r\<lparr>Valid := Valid r \<and> duplicates n (Data r) ?sn1 cols = [],
                     Errors := Errors r @ duplicates n (Data r) ?sn1 cols\<rparr>,
                   record_values (Data r) ?sn1 cols)"
        by (rule Cons.IH [OF dist dom1])
      finally show ?thesis using False nseen vs rv notin
        by (simp add: duplicates_Cons duplicates_upd)
    qed
  qed
qed

lemma checkColumns_append:
  "checkColumns n (xs @ ys) st
     = (case checkColumns n xs st of None \<Rightarrow> None | Some st' \<Rightarrow> checkColumns n ys st')"
proof (induction xs arbitrary: st)
  case Nil
  then show ?case by (cases st) simp
next
  case (Cons x xs)
  obtain r sn where st: "st = (r, sn)" by (cases st)
  show ?case unfolding st using Cons.IH
    by (simp add: Let_def split: option.splits)
qed

lemma checkUniqueness_concat:
  "checkUniqueness n rules st = checkColumns n (concat (map UniqueColumns rules)) st"
proof (induction rules arbitrary: st)
  case Nil
  then show ?case by (cases st) simp
next
  case (Cons rule rules)
  then show ?case by (simp add: checkColumns_append split: option.splits)
qed

lemma foldl_nested_concat:
  "foldl (\<lambda>m rule. foldl f m (g rule)) m0 rules = foldl f m0 (concat (map g rules))"
  by (induction rules arbitrary: m0) simp_all

lemma seen_init:
  "foldl (\<lambda>m col. if m col = None then m(col \<mapsto> {}) else m) m0 cols c
     = (if c \<in> set cols \<and> m0 c = None then Some {} else m0 c)"
  by (induction cols arbitrary: m0) auto

lemma seen_NewValidator:
  "seen (NewValidator s) c = (if c \<in> set (uniqueColumns s) then Some {} else None)"
  by (simp add: NewValidator_def foldl_nested_concat seen_init uniqueColumns_def)

lemma schema_NewValidator [simp]: "schema (NewValidator s) = s"
  by (simp add: NewValidator_def)

lemma ValidateRow_reaching:
  assumes "Valid (columnPhase L (schema v) n d)"
    and "distinct (uniqueColumns (schema v))"
    and "\<forall>col \<in> set (uniqueColumns (schema v)). seen v col \<noteq> None"
  shows "\<exists>r. ValidateRow L v n d
             = Some (r, v\<lparr>seen := record_values (Data (columnPhase L (schema v) n d)) (seen v)
                                     (uniqueColumns (schema v))\<rparr>)
           \<and> (if duplicates n (Data (columnPhase L (schema v) n d)) (seen v)
                    (uniqueColumns (schema v)) = []
               then r = validateRowRules L n (RowRules (schema v)) (columnPhase L (schema v) n d)
               else Errors r = duplicates n (Data (columnPhase L (schema v) n d)) (seen v)
                                 (uniqueColumns (schema v))
                    \<and> \<not> Valid r)"
proof -
  let ?p = "columnPhase L (schema v) n d"
  let ?dups = "duplicates n (Data ?p) (seen v) (uniqueColumns (schema v))"
  let ?sn = "record_values (Data ?p) (seen v) (uniqueColumns (schema v))"
  have e: "Errors ?p = []" using assms(1) by (simp add: Valid_columnPhase)
  have u: "checkUniqueness n (Uniqueness (schema v)) (?p, seen v)
          = Some (?p\<lparr>Valid := Valid ?p \<and> ?dups = [], Errors := Errors ?p @ ?dups\<rparr>, ?sn)"
    unfolding checkUniqueness_concat uniqueColumns_def [symmetric]
    by (rule checkColumns_eq [OF assms(2,3)])
  show ?thesis
  proof (cases "?dups = []")
    case True
    have "?p\<lparr>Valid := Valid ?p \<and> ?dups = [], Errors := Errors ?p @ ?dups\<rparr> = ?p"
      using assms(1) e True by simp
    with u have "checkUniqueness n (Uniqueness (schema v)) (?p, seen v) = Some (?p, ?sn)"
      by simp
    then have "ValidateRow L v n d
                 = Some (validateRowRules L n (RowRules (schema v)) ?p, v\<lparr>seen := ?sn\<rparr>)"
      using assms(1) by (simp add: ValidateRow_valid)
    then show ?thesis using True by simp
  next
    case False
    have "ValidateRow L v n d
            = Some (?p\<lparr>Valid := Valid ?p \<and> ?dups = [], Errors := Errors ?p @ ?dups\<rparr>,
                    v\<lparr>seen := ?sn\<rparr>)"
      using assms(1) u False by (simp add: ValidateRow_valid)
    then show ?thesis using False e by simp
  qed
qed

lemma validateRows_append:
  "validateRows L v (xs @ ys)
     = (case validateRows L v xs of
          None \<Rightarrow> None
        | Some (rs, v1) \<Rightarrow>
            (case validateRows L v1 ys of
               None \<Rightarrow> None
             | Some (rs', v2) \<Rightarrow> Some (rs @ rs', v2)))"
proof (induction xs arbitrary: v)
  case Nil
  then show ?case by (simp split: option.splits)
next
  case (Cons row xs)
  obtain n d where row: "row = (n, d)" by (cases row)
  show ?case unfolding row using Cons.IH
    by (simp split: option.splits prod.splits)
qed

lemma seenBy_Nil [simp]: "seenBy L s [] col = {}"
  by (simp add: seenBy_def)

lemma seenBy_Cons:
  "seenBy L s (row # rows) col
     = (if reaches L s row \<and> valueAt L s row col \<noteq> [] then {valueAt L s row col} else {})
       \<union> seenBy L s rows col"
  by (auto simp: seenBy_def)

lemma validateRows_seen:
  assumes "schema v = s" "distinct (uniqueColumns s)"
    and "\<forall>col \<in> set (uniqueColumns s). seen v col = Some (S col)"
  shows "\<exists>rs v'. validateRows L v rows = Some (rs, v') \<and> length rs = length rows
           \<and> schema v' = s
           \<and> (\<forall>col \<in> set (uniqueColumns s). seen v' col = Some (S col \<union> seenBy L s rows col))"
  using assms
proof (induction rows arbitrary: v S)
  case Nil
  then show ?case by simp
next
  case (Cons row rows)
  obtain n d where row: "row = (n, d)" by (cases row)
  let ?p = "columnPhase L s n d"
  show ?case
  proof (cases "Valid ?p")
    case False
    then have step: "ValidateRow L v n d = Some (?p, v)"
      using Cons.prems(1) ValidateRow_invalid [of L v n d] by simp
    have nr: "\<not> reaches L s row" using False by (simp add: reaches_def row)
    from Cons.IH [OF Cons.prems] obtain rs v' where
      "validateRows L v rows = Some (rs, v')" "length rs = length rows" "schema v' = s"
      "\<forall>col \<in> set (uniqueColumns s). seen v' col = Some (S col \<union> seenBy L s rows col)"
      by blast
    then show ?thesis using step nr by (simp add: row seenBy_Cons)
  next
    case True
    have dom: "\<forall>col \<in> set (uniqueColumns (schema v)). seen v col \<noteq> None"
      using Cons.prems by simp
    from ValidateRow_reaching [of L v n d] True Cons.prems(1,2) dom
    obtain r where step: "ValidateRow L v n d
        = Some (r, v\<lparr>seen := record_values (Data ?p) (seen v) (uniqueColumns s)\<rparr>)"
      by auto
    let ?v1 = "v\<lparr>seen := record_values (Data ?p) (seen v) (uniqueColumns s)\<rparr>"
    let ?S1 = "\<lambda>col. S col \<union> (if lookup (Data ?p) col \<noteq> [] then {lookup (Data ?p) col} else {})"
    have s1: "schema ?v1 = s" using Cons.prems(1) by simp
    have seen1: "\<forall>col \<in> set (uniqueColumns s). seen ?v1 col = Some (?S1 col)"
      using Cons.prems(3) by (auto simp: record_values_def)
    from Cons.IH [OF s1 Cons.prems(2) seen1] obtain rs v' where
      rest: "validateRows L ?v1 rows = Some (rs, v')" "length rs = length rows" "schema v' = s"
      "\<forall>col \<in> set (uniqueColumns s). seen v' col = Some (?S1 col \<union> seenBy L s rows col)"
      by blast
    have re: "reaches L s row" using True by (simp add: reaches_def row)
    have "\<forall>col \<in> set (uniqueColumns s).
            seen v' col = Some (S col \<union> seenBy L s (row # rows) col)"
      using rest(4) re by (auto simp: seenBy_Cons valueAt_def row)
    then show ?thesis using step rest(1,2,3) by (simp add: row)
  qed
qed

lemma filter_duplicates_other:
  "col \<notin> set cols
     \<Longrightarrow> filter (\<lambda>e. Column e = col \<and> Message e = ''duplicate value violates uniqueness constraint'')
           (duplicates n data sn cols) = []"
  by (induction cols) (auto simp: duplicates_Cons duplicateError_def)

lemma filter_duplicates:
  assumes "distinct cols" "col \<in> set cols"
  shows "filter (\<lambda>e. Column e = col \<and> Message e = ''duplicate value violates uniqueness constraint'')
           (duplicates n data sn cols)
         = (if lookup data col \<noteq> [] \<and> lookup data col \<in> the (sn col)
            then [duplicateError n col (lookup data col)] else [])"
  using assms
proof (induction cols)
  case Nil
  then show ?case by simp
next
  case (Cons a cols)
  show ?case
  proof (cases "a = col")
    case True
    then have "col \<notin> set cols" using Cons.prems by simp
    then show ?thesis using True
      by (simp add: duplicates_Cons filter_duplicates_other duplicateError_def)
  next
    case False
    then have "col \<in> set cols" "distinct cols" using Cons.prems by auto
    then show ?thesis using False Cons.IH
      by (simp add: duplicates_Cons duplicateError_def)
  qed
qed

lemma Errors_ruleStep:
  "e \<in> set (Errors (ruleStep L n r a))
     \<Longrightarrow> e \<in> set (Errors r) \<or> take 9 (Message e) = ''row rule ''"
  by (auto simp: ruleStep_def split: if_splits)

lemma Errors_validateRowRules:
  "e \<in> set (Errors (validateRowRules L n rules r))
     \<Longrightarrow> e \<in> set (Errors r) \<or> take 9 (Message e) = ''row rule ''"
  unfolding validateRowRules_def
proof (induction rules arbitrary: r)
  case Nil
  then show ?case by simp
next
  case (Cons a rules)
  from Cons.prems have "e \<in> set (Errors (foldl (ruleStep L n) (ruleStep L n r a) rules))"
    by simp
  then have "e \<in> set (Errors (ruleStep L n r a)) \<or> take 9 (Message e) = ''row rule ''"
    by (rule Cons.IH)
  then show ?case using Errors_ruleStep by blast
qed

lemma filter_validateRowRules:
  assumes "Errors r = []"
  shows "filter (\<lambda>e. Column e = col \<and> Message e = ''duplicate value violates uniqueness constraint'')
           (Errors (validateRowRules L n rules r)) = []"
proof -
  have "Message e \<noteq> ''duplicate value violates uniqueness constraint''"
    if "e \<in> set (Errors (validateRowRules L n rules r))" for e
  proof -
    from Errors_validateRowRules [OF that] assms
    have "take 9 (Message e) = ''row rule ''" by simp
    then show ?thesis by auto
  qed
  then show ?thesis by (auto simp: filter_empty_conv)
qed

lemma checkColumns_total:
  assumes "\<forall>col \<in> set cols. sn col \<noteq> None"
  shows "\<exists>r' sn'. checkColumns n cols (r, sn) = Some (r', sn') \<and> (\<forall>c. sn c \<noteq> None \<longrightarrow> sn' c \<noteq> None)"
  using assms
proof (induction cols arbitrary: r sn)
  case Nil
  then show ?case by simp
next
  case (Cons col cols)
  then obtain vs where vs: "sn col = Some vs" by auto
  let ?x = "lookup (Data r) col"
  consider "?x = []" | "?x \<noteq> []" "?x \<in> vs" | "?x \<noteq> []" "?x \<notin> vs" by blast
  then show ?case
  proof cases
    case 1
    then show ?thesis using Cons.IH [of sn r] Cons.prems by simp
  next
    case 2
    then show ?thesis
      using Cons.IH [of sn "r\<lparr>Valid := False, Errors := Errors r @ [duplicateError n col ?x]\<rparr>"]
        Cons.prems vs by (simp add: duplicateError_def)
  next
    case 3
    have "\<forall>c \<in> set cols. (sn(col \<mapsto> insert ?x vs)) c \<noteq> None" using Cons.prems by simp
    from Cons.IH [OF this, of r] obtain r' sn' where
      "checkColumns n cols (r, sn(col \<mapsto> insert ?x vs)) = Some (r', sn')"
      "\<forall>c. (sn(col \<mapsto> insert ?x vs)) c \<noteq> None \<longrightarrow> sn' c \<noteq> None" by blast
    then show ?thesis using 3 vs by (auto simp: Let_def)
  qed
qed

lemma initialised_NewValidator: "initialised (NewValidator s)"
  by (simp add: initialised_def list_all_iff seen_NewValidator)

lemma ValidateRow_total:
  assumes "initialised v"
  shows "\<exists>r v'. ValidateRow L v n d = Some (r, v') \<and> schema v' = schema v \<and> initialised v'"
proof (cases "Valid (columnPhase L (schema v) n d)")
  case False
  then show ?thesis using assms by (simp add: ValidateRow_invalid)
next
  case True
  have "\<forall>col \<in> set (uniqueColumns (schema v)). seen v col \<noteq> None"
    using assms by (simp add: initialised_def list_all_iff)
  from checkColumns_total [OF this, of n "columnPhase L (schema v) n d"]
  obtain r' sn' where
    "checkUniqueness n (Uniqueness (schema v)) (columnPhase L (schema v) n d, seen v) = Some (r', sn')"
    "\<forall>c. seen v c \<noteq> None \<longrightarrow> sn' c \<noteq> None"
    unfolding checkUniqueness_concat uniqueColumns_def by blast
  then show ?thesis using True assms
    by (simp add: ValidateRow_valid initialised_def list_all_iff)
qed

lemma Data_of_ValidateRow:
  assumes "ValidateRow L v rowNum data = Some (r, v')"
    and "distinct (map Name (Columns (schema v)))"
  shows "fst ` set (Data r) \<subseteq> Name ` set (Columns (schema v))
         \<and> (Valid r \<longrightarrow> fst ` set (Data r) = Name ` set (Columns (schema v)))
         \<and> (\<forall>c \<in> set (Columns (schema v)).
               map_of (Data r) (Name c)
                 = (case columnOutcome L (schema v) data c of
                      Inl e \<Rightarrow> None
                    | Inr x \<Rightarrow> Some x))"
proof -
  let ?p = "columnPhase L (schema v) rowNum data"
  have D: "Data r = Data ?p" using assms(1) by (rule Data_ValidateRow)
  have keys: "fst ` set (Data ?p)
                = Name ` {c \<in> set (Columns (schema v)). columnErrors L (schema v) rowNum data c = []}"
    by (simp add: columnPhase_def keys_foldl_columnStep)
  have 1: "fst ` set (Data r) \<subseteq> Name ` set (Columns (schema v))"
    unfolding D keys by blast
  have 2: "fst ` set (Data r) = Name ` set (Columns (schema v))" if "Valid r"
  proof -
    have "Valid ?p" using assms(1) that by (rule Valid_ValidateRow)
    then have "\<forall>c \<in> set (Columns (schema v)). columnErrors L (schema v) rowNum data c = []"
      by (simp add: Valid_columnPhase Errors_columnPhase)
    then show ?thesis unfolding D keys by auto
  qed
  have 3: "map_of (Data r) (Name c)
             = (case columnOutcome L (schema v) data c of Inl e \<Rightarrow> None | Inr x \<Rightarrow> Some x)"
    if "c \<in> set (Columns (schema v))" for c
    unfolding D columnPhase_def using map_of_foldl_columnStep [OF assms(2) that, of L "schema v" rowNum data]
    by (simp split: sum.splits)
  from 1 2 3 show ?thesis by blast
qed


lemma Data_after_ValidateRow:
  assumes "initialised v"
    and "distinct (map Name (Columns (schema v)))"
  shows "\<exists>r v'. ValidateRow L v rowNum data = Some (r, v')
           \<and> fst ` set (Data r) \<subseteq> Name ` set (Columns (schema v))
           \<and> (Valid r \<longrightarrow> fst ` set (Data r) = Name ` set (Columns (schema v)))
           \<and> (\<forall>c \<in> set (Columns (schema v)).
                 map_of (Data r) (Name c)
                   = (case columnOutcome L (schema v) data c of
                        Inl e \<Rightarrow> None
                      | Inr x \<Rightarrow> Some x))"
proof -
  from ValidateRow_total [OF assms(1)] obtain r v' where
    "ValidateRow L v rowNum data = Some (r, v')" by blast
  with Data_of_ValidateRow [OF this assms(2)] show ?thesis by blast
qed

subsection \<open>The runner and the client\<close>

lemma processTask_validates:
  assumes "processTask E st task = Some st'"
    and "\<not> limiter (runner st) \<or> waitOK E (RowNumber task)"
  shows "\<exists>vr v. ValidateRow (lib E) (validator (runner st)) (RowNumber task) (TaskData task)
                  = Some (vr, v)"
  using assms by (auto simp: processTask_def split: option.splits if_splits)

lemma processTask_calls:
  assumes "processTask E st task = Some st'"
    and "callbackGiven E"
    and "\<not> limiter (runner st) \<or> waitOK E (RowNumber task)"
    and "ValidateRow (lib E) (validator (runner st)) (RowNumber task) (TaskData task) = Some (vr, v)"
  shows "if skips E (runner st) vr then calls st' = calls st
         else \<exists>rr. calls st' = calls st @ [(RowNumber task, vr, rr)]"
  using assms
  by (auto simp: processTask_def skips_def invoke_def isAlreadyProcessed_def Let_def
           split: if_splits sum.splits)

lemma processTask_counters:
  assumes "processTask E st task = Some st'"
    and "\<not> limiter (runner st) \<or> waitOK E (RowNumber task)"
    and "ValidateRow (lib E) (validator (runner st)) (RowNumber task) (TaskData task) = Some (vr, v)"
  shows "TotalRows (result st') = TotalRows (result st)
         \<and> handled (result st')
             = handled (result st)
               + (if \<not> skips E (runner st) vr \<and> renderFails E (runner st) vr then 0 else 1)"
  using assms
  by (auto simp: processTask_def skips_def renderFails_def handled_def invoke_def
                 isAlreadyProcessed_def Let_def
           split: if_splits sum.splits)

lemma response_is_final:
  assumes "attempt \<le> maxRetries c" "roundTrip W attempt = Response status body header"
  shows "\<exists>r'. attempts c W attempt (r, e) = (False, r', e)
           \<and> Retries r' = attempt \<and> StatusCode r' = status"
  using assms by (subst attempts.simps) (simp add: Let_def)

lemma Execute_first_response:
  assumes "0 \<le> maxRetries c" "roundTrip W 0 = Response status body header"
  shows "Retries (Execute c W d rid) = 0 \<and> StatusCode (Execute c W d rid) = status"
proof -
  let ?r0 = "\<lparr>StatusCode = 0, Success = False, LatencyMs = 0, Retries = 0, ErrorCategory = [],
              ErrorDetail = [], ResponsePreview = [], RHeaders = [], RequestID = rid\<rparr>"
  from response_is_final [OF assms, of ?r0 None]
  obtain r' where "attempts c W 0 (?r0, None) = (False, r', None)"
    "Retries r' = 0" "StatusCode r' = status" by blast
  then show ?thesis by (simp add: Execute_def)
qed

lemma calculateBackoff_capped: "calculateBackoff k1 k2 attempt \<le> 30 * Second"
  by (simp add: calculateBackoff_def Let_def)

lemma Execute_retries_errors:
  "Execute (NewClient (postConfig ''http://api/x'' [])) refusing someRequest ''req''
   = \<lparr>StatusCode = 200, Success = True, LatencyMs = 0, Retries = 2,
      ErrorCategory = ''connection_refused'', ErrorDetail = ''dial tcp: connection refused'',
      ResponsePreview = ''ok'', RHeaders = [], RequestID = ''req''\<rparr>"
  by (simp add: Execute_def NewClient_def attempts.simps shouldRetry_def IsSuccessStatus_def
        truncateResponse_def checkResponseConditions_def categorizeError_def refusing_def
        postConfig_def okStatuses_def HasPrefix_def)

text \<open>
  The rounding of \<open>float64\<close> shows at some draws: here the exact product is below
  375000001 nanoseconds and the rounded one is not, so that the code sleeps one nanosecond
  longer than exact arithmetic would give.
\<close>

lemma bitLength_product: "bitLength 6755399459070142000000000 = 83"
  by (simp add: bitLength.simps)

lemma roundBits_product: "roundBits 6755399459070142000000000 = 6755399459070142509481984"
  by (simp add: roundBits_def bitLength_product)

lemma roundBits_second: "roundBits 1000000000 = 1000000000"
  by (simp add: roundBits_def bitLength.simps)

lemma calculateBackoff_rounds:
  "calculateBackoff 6755399459070142 (2 ^ 52) 0 = 1375000001
   \<and> (6755399459070142 * 1000000000) div 2 ^ 54 = (375000000 :: int)"
  by (simp add: calculateBackoff_def Second_def wrap64_def roundBits_second roundBits_product)

lemma bitLength_exact: "bitLength 6755399441055744000000000 = 83"
  by (simp add: bitLength.simps)

lemma roundBits_exact: "roundBits 6755399441055744000000000 = 6755399441055744000000000"
  by (simp add: roundBits_def bitLength_exact)

subsection \<open>The request hash\<close>

lemma length_sortInner [simp]: "length (sortInner keys i j) = length keys"
  by (induction keys i j rule: sortInner.induct) (subst sortInner.simps, auto)

lemma sortInner_inv:
  assumes "i < j" "j \<le> length keys"
    and "\<forall>k. i < k \<and> k < j \<longrightarrow> keys ! i \<le> keys ! k"
  shows "take i (sortInner keys i j) = take i keys
         \<and> mset (drop i (sortInner keys i j)) = mset (drop i keys)
         \<and> (\<forall>k. i < k \<and> k < length keys \<longrightarrow> sortInner keys i j ! i \<le> sortInner keys i j ! k)"
  using assms
proof (induction keys i j rule: sortInner.induct)
  case (1 keys i j)
  show ?case
  proof (cases "j < length keys")
    case False
    then have "sortInner keys i j = keys" by (subst sortInner.simps) simp
    moreover have "j = length keys" using False "1.prems" by simp
    ultimately show ?thesis using "1.prems" by simp
  next
    case True
    let ?keys1 = "if keys ! i > keys ! j then keys[i := keys ! j, j := keys ! i] else keys"
    have unfold: "sortInner keys i j = sortInner ?keys1 i (j + 1)"
      using True by (subst sortInner.simps) simp
    have len1: "length ?keys1 = length keys" by simp
    have i_lt: "i < length keys" using "1.prems" True by simp
    have take1: "take i ?keys1 = take i keys" using "1.prems" by simp
    have mset1: "mset (drop i ?keys1) = mset (drop i keys)"
    proof (cases "keys ! i > keys ! j")
      case False
      then show ?thesis by simp
    next
      case swap: True
      have "drop i (keys[i := keys ! j, j := keys ! i])
              = (drop i keys)[0 := drop i keys ! (j - i), j - i := drop i keys ! 0]"
        using "1.prems" True i_lt by (simp add: drop_update_swap)
      moreover have "mset ((drop i keys)[0 := drop i keys ! (j - i), j - i := drop i keys ! 0])
              = mset (drop i keys)"
        using "1.prems" True i_lt mset_swap [of "j - i" "drop i keys" 0] by simp
      ultimately show ?thesis using swap by simp
    qed
    have pre1: "\<forall>k. i < k \<and> k < j + 1 \<longrightarrow> ?keys1 ! i \<le> ?keys1 ! k"
    proof (intro allI impI)
      fix k assume k: "i < k \<and> k < j + 1"
      show "?keys1 ! i \<le> ?keys1 ! k"
      proof (cases "keys ! i > keys ! j")
        case False
        then show ?thesis using k "1.prems"(3) by (cases "k = j") auto
      next
        case swap: True
        show ?thesis
        proof (cases "k = j")
          case True
          then show ?thesis using swap i_lt \<open>j < length keys\<close> "1.prems"(1) by simp
        next
          case False
          then have "k < j" using k by simp
          then have "keys ! i \<le> keys ! k" using k "1.prems"(3) by simp
          then show ?thesis using swap i_lt \<open>j < length keys\<close> "1.prems"(1) k \<open>k < j\<close>
            by simp
        qed
      qed
    qed
    have "take i (sortInner ?keys1 i (j + 1)) = take i ?keys1
         \<and> mset (drop i (sortInner ?keys1 i (j + 1))) = mset (drop i ?keys1)
         \<and> (\<forall>k. i < k \<and> k < length ?keys1
                \<longrightarrow> sortInner ?keys1 i (j + 1) ! i \<le> sortInner ?keys1 i (j + 1) ! k)"
      using "1.IH" [OF True] "1.prems"(1) True pre1 len1 by simp
    then show ?thesis unfolding unfold using take1 mset1 len1 by simp
  qed
qed

lemma sortOuter_inv:
  assumes "i \<le> length keys" "sorted (take i keys)"
    and "\<forall>x \<in> set (take i keys). \<forall>y \<in> set (drop i keys). x \<le> y"
  shows "sorted (sortOuter keys i) \<and> mset (sortOuter keys i) = mset keys"
  using assms
proof (induction keys i rule: sortOuter.induct)
  case (1 keys i)
  show ?case
  proof (cases "i < length keys")
    case False
    then have "sortOuter keys i = keys" by (subst sortOuter.simps) simp
    then show ?thesis using False "1.prems" by simp
  next
    case True
    let ?k1 = "sortInner keys i (i + 1)"
    have unfold: "sortOuter keys i = sortOuter ?k1 (i + 1)"
      using True by (subst sortOuter.simps) simp
    have vac: "\<forall>k. i < k \<and> k < i + 1 \<longrightarrow> keys ! i \<le> keys ! k" by auto
    have "i < i + 1" "i + 1 \<le> length keys" using True by auto
    from sortInner_inv [OF this vac]
    have tk: "take i ?k1 = take i keys"
      and ms: "mset (drop i ?k1) = mset (drop i keys)"
      and mn: "\<forall>k. i < k \<and> k < length keys \<longrightarrow> ?k1 ! i \<le> ?k1 ! k"
      by auto
    have len: "length ?k1 = length keys" by simp
    have set_drop: "set (drop i ?k1) = set (drop i keys)" using ms by (rule mset_eq_setD)
    have split: "mset xs = mset (take i xs) + mset (drop i xs)" for xs :: "string list"
    proof -
      have "mset xs = mset (take i xs @ drop i xs)" by simp
      then show ?thesis by (simp only: mset_append)
    qed
    have whole: "mset ?k1 = mset keys"
      using split [of ?k1] split [of keys] tk ms by simp
    have "drop i ?k1 = ?k1 ! i # drop (Suc i) ?k1"
      using True len by (simp add: Cons_nth_drop_Suc)
    then have head_in: "?k1 ! i \<in> set (drop i ?k1)" by simp
    have tk1: "take (i + 1) ?k1 = take i keys @ [?k1 ! i]"
      using True len tk by (simp add: take_Suc_conv_app_nth)
    have sorted1: "sorted (take (i + 1) ?k1)"
      unfolding tk1 using "1.prems"(2,3) head_in set_drop by (simp add: sorted_append)
    have below: "\<forall>x \<in> set (take (i + 1) ?k1). \<forall>y \<in> set (drop (i + 1) ?k1). x \<le> y"
    proof (intro ballI)
      fix x y assume x: "x \<in> set (take (i + 1) ?k1)" and y: "y \<in> set (drop (i + 1) ?k1)"
      from y obtain m where m: "m < length (drop (i + 1) ?k1)" "drop (i + 1) ?k1 ! m = y"
        by (auto simp: in_set_conv_nth)
      then have k: "i + 1 + m < length keys" "y = ?k1 ! (i + 1 + m)"
        using len by auto
      have "set (drop (i + 1) ?k1) \<subseteq> set (drop i ?k1)"
        by (rule set_drop_subset_set_drop) simp
      then have y_in: "y \<in> set (drop i keys)" using y set_drop by blast
      from x have "x \<in> set (take i keys) \<or> x = ?k1 ! i" unfolding tk1 by auto
      then show "x \<le> y"
      proof
        assume "x \<in> set (take i keys)"
        then show ?thesis using "1.prems"(3) y_in by blast
      next
        assume "x = ?k1 ! i"
        then show ?thesis using mn k by simp
      qed
    qed
    have "sorted (sortOuter ?k1 (i + 1)) \<and> mset (sortOuter ?k1 (i + 1)) = mset ?k1"
      using "1.IH" [OF True] True len sorted1 below by simp
    then show ?thesis unfolding unfold using whole by simp
  qed
qed

lemma simpleSort_sort: "simpleSort keys = sort keys"
proof -
  have "sorted (sortOuter keys 0) \<and> mset (sortOuter keys 0) = mset keys"
    by (rule sortOuter_inv) simp_all
  then show ?thesis unfolding simpleSort_def
    using properties_for_sort [of "sortOuter keys 0" keys] by simp
qed

lemma dataLines_order_independent:
  assumes "distinct (map fst d)" "distinct (map fst d')" "map_of d = map_of d'"
  shows "dataLines d = dataLines d'"
proof -
  have "set (map fst d) = set (map fst d')"
    using assms(3) by (metis dom_map_of_conv_image_fst set_map)
  then have "mset (map fst d) = mset (map fst d')"
    using assms(1,2) set_eq_iff_mset_eq_distinct [of "map fst d" "map fst d'"] by blast
  then have "sort (map fst d) = sort (map fst d')"
    by (metis properties_for_sort sorted_sort mset_sort)
  moreover have "lookup d = lookup d'"
    using assms(3) by (simp add: lookup_def fun_eq_iff)
  ultimately show ?thesis by (simp add: dataLines_def simpleSort_sort)
qed

lemma generateRequestHash_order_independent:
  assumes "distinct (map fst d)" "distinct (map fst d')" "map_of d = map_of d'"
  shows "generateRequestHash H rc d = generateRequestHash H rc d'"
  using dataLines_order_independent [OF assms] by (simp add: generateRequestHash_def)


section \<open>The claims\<close>

lemmas validator_defs = ValidateRow_def columnPhase_def columnStep_def columnOutcome_def
  validateValue_def validateType_def preprocess_def transform_def validateRowRules_def
  NewValidator_def stringColumn_def lookup_def
lemmas runner_defs = Run_def processTask_def invoke_def NewRunner_def isAlreadyProcessed_def
  markAsProcessed_def generateRequestHash_def rendererRequestHash_def Render_def dataLines_def
  configLines_def simpleSort_def sortOuter.simps sortInner.simps
lemmas client_defs = Execute_def NewClient_def attempts.simps shouldRetry_def IsSuccessStatus_def
  truncateResponse_def checkResponseConditions_def categorizeError_def
lemmas example_defs = exampleEnv_def nameSchema_def aliceTask_def postConfig_def server_def
  plainEngine_def okStatuses_def someRequest_def HasPrefix_def codeSchema_def contactSchema_def

text \<open>
  Claim C1 says that the callback is invoked exactly once for every row the runner
  receives, the skipped rows included. In \<open>processTask\<close> the branch of a request hash that
  was already processed counts the row and returns before the callback: of two equal rows
  in one run, the first is sent and reported, the second is skipped and the callback is
  called once in all, for row 1.
\<close>

theorem skipped_row_no_callback:
  "map_option (\<lambda>st. (map fst (calls st), result st))
     (Run (exampleEnv H) (NewRunner nameSchema (postConfig ''http://api/x'' []) False)
        [aliceTask 1, aliceTask 2])
   = Some ([1], \<lparr>TotalRows = 2, SuccessRows = 1, FailedRows = 0, SkippedRows = 1\<rparr>)"
  by (simp add: runner_defs validator_defs client_defs example_defs)

text \<open>
  Claim C2 says that an attempt that completes with a status 5xx or 429 is retried. In
  \<open>Execute\<close> only an attempt that returns an error reaches \<open>shouldRetry\<close>; a response that
  arrives whole returns no error whatever its status, and ends the loop. Against a server
  answering 500, 500, 200 the client stops at the first 500, with no retry and no success.
\<close>

theorem execute_500_500_200:
  "Execute (NewClient (postConfig ''http://api/x'' [])) (server [500, 500, 200]) someRequest ''req''
   = \<lparr>StatusCode = 500, Success = False, LatencyMs = 0, Retries = 0, ErrorCategory = [],
      ErrorDetail = [], ResponsePreview = [], RHeaders = [], RequestID = ''req''\<rparr>"
  by (simp add: client_defs example_defs)

text \<open>
  Claim C3 says that at the end of a run the total is the sum of the successes, the
  failures and the skipped rows. The branch of a template error in \<open>processTask\<close> builds the
  failed request result and counts nothing: a run of one valid row whose URL template
  fails to render ends with a total of 1 and the three other counters at 0.
\<close>

theorem template_error_not_counted:
  "map_option (\<lambda>st. (map fst (calls st), result st))
     (Run (exampleEnv H)
        (NewRunner nameSchema (postConfig ''http://api/{{.name.first}}'' []) False)
        [aliceTask 1])
   = Some ([1], \<lparr>TotalRows = 1, SuccessRows = 0, FailedRows = 0, SkippedRows = 0\<rparr>)"
  by (simp add: runner_defs validator_defs client_defs example_defs)

text \<open>
  Claim C4 says that the request hash the runner uses as idempotency key changes with the
  headers template. The \<open>generateRequestHash\<close> of the runner, which overwrites the hash of
  the renderer, writes the method, the URL, the body and the data to the digest, and not
  the headers: two configurations that differ only in their headers give one hash.
\<close>

theorem runner_hash_ignores_headers:
  "generateRequestHash H (rc\<lparr>Headers := hs\<rparr>) data = generateRequestHash H rc data"
  by (simp add: generateRequestHash_def configLines_def)

text \<open>
  Claim C5 says that the normalized data of a row has an entry for every schema column, a
  column that fails its validation keeping its value after the preprocessing. \<open>ValidateRow\<close>
  appends the error of such a column and goes on to the next one without writing
  \<open>result.Data\<close>: a code of six bytes where at most three are allowed leaves the data
  without the key \<open>code\<close>. The logger hands this data to the export of the failed rows,
  which fills the cells from it: the row is exported with an empty cell for its code.
\<close>

theorem failed_column_missing_from_data:
  "map_option (\<lambda>(r, v). (Valid r, Data r))
     (ValidateRow stubLib (NewValidator codeSchema) 1 [''code'' \<mapsto> ''abcdef''])
     = Some (False, [])
   \<and> GetColumnNames codeSchema = [''code'']
   \<and> map_option (\<lambda>st. map (exportRecord codeSchema) (loggedFailedRows (calls st)))
       (Run (exampleEnv H) (NewRunner codeSchema (postConfig ''http://api/x'' []) False)
          [codeTask])
     = Some [[[], ''validation_failed''], [[], ''validation_error'']]"
  by (simp add: runner_defs validator_defs example_defs codeTask_def GetColumnNames_def
        exportRecord_def loggedFailedRows_def LogRequest_def)

text \<open>
  Claim C6 says that the jitter of the backoff is at most 25% of \<open>2^attempt\<close> seconds. The
  code draws the jitter below half of the delay (\<open>rand.Float64() * 0.5 * delay\<close>) and adds
  or subtracts it: with the draws 0.75 and 0.5 (the integers \<open>3 * 2^51\<close> and \<open>2^52\<close> over
  \<open>2^53\<close>) the first backoff is 1.375 seconds, 37.5% above one second.
\<close>

theorem backoff_jitter_half:
  "calculateBackoff (3 * 2 ^ 51) (2 ^ 52) 0 = 1375000000
   \<and> Second + Second div 4 = 1250000000"
  by (simp add: calculateBackoff_def Second_def wrap64_def roundBits_second roundBits_exact)

text \<open>
  Claim C7, as amended. Uniqueness is enforced among the rows that reach the uniqueness
  check, that is the rows without an error after the loop over the columns, in the order
  in which they are validated. For a schema whose uniqueness columns are distinct and for
  each of these columns: a row that reaches the check gets the duplicate error for the
  column, once, and fails, exactly when its value there is not empty and an earlier row
  that reached the check had the same value there (so the first such row gets none and
  its value is recorded, and an empty value never gets one); a row that does not reach
  the check is returned as the loop over the columns left it, and records nothing.
\<close>

theorem uniqueness_in_order:
  assumes "distinct (uniqueColumns s)"
    and "col \<in> set (uniqueColumns s)"
  shows "\<exists>rs r v. validateRows L (NewValidator s) (earlier @ [row]) = Some (rs @ [r], v)
           \<and> length rs = length earlier
           \<and> (if reaches L s row then
                 (if valueAt L s row col \<noteq> []
                     \<and> (\<exists>prev \<in> set earlier. reaches L s prev \<and> valueAt L s prev col = valueAt L s row col)
                  then filter (\<lambda>e. Column e = col
                                 \<and> Message e = ''duplicate value violates uniqueness constraint'')
                         (Errors r)
                         = [duplicateError (fst row) col (valueAt L s row col)]
                       \<and> \<not> Valid r
                  else filter (\<lambda>e. Column e = col
                                 \<and> Message e = ''duplicate value violates uniqueness constraint'')
                         (Errors r) = [])
               else r = columnPhase L s (fst row) (snd row))"
proof -
  obtain n d where row: "row = (n, d)" by (cases row)
  let ?P = "\<lambda>e. Column e = col \<and> Message e = ''duplicate value violates uniqueness constraint''"
  let ?p = "columnPhase L s n d"
  let ?x = "valueAt L s row col"
  have x: "?x = lookup (Data ?p) col" by (simp add: valueAt_def row)
  have init: "\<forall>c \<in> set (uniqueColumns s). seen (NewValidator s) c = Some {}"
    by (simp add: seen_NewValidator)
  from validateRows_seen [OF schema_NewValidator assms(1) init, of L earlier]
  obtain rs v1 where
    pre: "validateRows L (NewValidator s) earlier = Some (rs, v1)"
    and len: "length rs = length earlier"
    and sch: "schema v1 = s"
    and sn: "\<forall>c \<in> set (uniqueColumns s). seen v1 c = Some (seenBy L s earlier c)"
    by auto
  have sncol: "the (seen v1 col) = seenBy L s earlier col" using sn assms(2) by simp
  have mem: "?x \<noteq> [] \<and> ?x \<in> the (seen v1 col)
               \<longleftrightarrow> ?x \<noteq> [] \<and> (\<exists>prev \<in> set earlier. reaches L s prev \<and> valueAt L s prev col = ?x)"
    unfolding sncol by (auto simp: seenBy_def)
  show ?thesis
  proof (cases "reaches L s row")
    case False
    then have "\<not> Valid (columnPhase L (schema v1) n d)" by (simp add: reaches_def row sch)
    then have "ValidateRow L v1 n d = Some (columnPhase L (schema v1) n d, v1)"
      by (rule ValidateRow_invalid)
    then have "validateRows L (NewValidator s) (earlier @ [row]) = Some (rs @ [?p], v1)"
      using pre by (simp add: validateRows_append row sch)
    then show ?thesis using len False by (auto simp: row)
  next
    case True
    then have val: "Valid (columnPhase L (schema v1) n d)" by (simp add: reaches_def row sch)
    have dom: "\<forall>c \<in> set (uniqueColumns (schema v1)). seen v1 c \<noteq> None" using sn sch by simp
    let ?dups = "duplicates n (Data ?p) (seen v1) (uniqueColumns s)"
    from ValidateRow_reaching [OF val _ dom] assms(1) sch
    obtain r where
      step: "ValidateRow L v1 n d
               = Some (r, v1\<lparr>seen := record_values (Data ?p) (seen v1) (uniqueColumns s)\<rparr>)"
      and r: "if ?dups = [] then r = validateRowRules L n (RowRules s) ?p
              else Errors r = ?dups \<and> \<not> Valid r"
      by auto
    have run: "validateRows L (NewValidator s) (earlier @ [row])
                 = Some (rs @ [r], v1\<lparr>seen := record_values (Data ?p) (seen v1) (uniqueColumns s)\<rparr>)"
      using pre step by (simp add: validateRows_append row)
    have fd: "filter ?P ?dups
                = (if ?x \<noteq> [] \<and> ?x \<in> the (seen v1 col) then [duplicateError n col ?x] else [])"
      unfolding x by (rule filter_duplicates [OF assms])
    have ep: "Errors ?p = []" using val sch by (simp add: Valid_columnPhase)
    have res: "filter ?P (Errors r) = filter ?P ?dups \<and> (filter ?P ?dups \<noteq> [] \<longrightarrow> \<not> Valid r)"
    proof (cases "?dups = []")
      case True
      with r have "r = validateRowRules L n (RowRules s) ?p" by simp
      then show ?thesis using True filter_validateRowRules [OF ep] by simp
    next
      case False
      with r show ?thesis by simp
    qed
    show ?thesis
    proof (cases "?x \<noteq> [] \<and> (\<exists>prev \<in> set earlier. reaches L s prev \<and> valueAt L s prev col = ?x)")
      case c: True
      then have "filter ?P ?dups = [duplicateError n col ?x]" using fd mem by simp
      with res have "filter ?P (Errors r) = [duplicateError n col ?x] \<and> \<not> Valid r" by simp
      with run len True c show ?thesis by (auto simp: row)
    next
      case c: False
      then have "filter ?P ?dups = []" using fd mem by auto
      with res have "filter ?P (Errors r) = []" by simp
      with run len True c show ?thesis by (auto simp: row)
    qed
  qed
qed

theorem uniqueness_in_order_witness:
  "distinct (uniqueColumns contactSchema)
   \<and> ''phone'' \<in> set (uniqueColumns contactSchema)
   \<and> reaches stubLib contactSchema (1, [''phone'' \<mapsto> ''0101'', ''email'' \<mapsto> ''x@y.z''])
   \<and> reaches stubLib contactSchema (2, [''phone'' \<mapsto> ''0101'', ''email'' \<mapsto> ''a@b.c''])
   \<and> valueAt stubLib contactSchema (1, [''phone'' \<mapsto> ''0101'', ''email'' \<mapsto> ''x@y.z'']) ''phone''
       = ''0101''
   \<and> valueAt stubLib contactSchema (2, [''phone'' \<mapsto> ''0101'', ''email'' \<mapsto> ''a@b.c'']) ''phone''
       = ''0101''
   \<and> (\<exists>rs r v. validateRows stubLib (NewValidator contactSchema)
                    ([(1, [''phone'' \<mapsto> ''0101'', ''email'' \<mapsto> ''x@y.z''])]
                     @ [(2, [''phone'' \<mapsto> ''0101'', ''email'' \<mapsto> ''a@b.c''])])
                    = Some (rs @ [r], v)
          \<and> length rs = 1
          \<and> filter (\<lambda>e. Column e = ''phone''
                         \<and> Message e = ''duplicate value violates uniqueness constraint'')
                 (Errors r)
               = [duplicateError 2 ''phone'' ''0101'']
          \<and> \<not> Valid r)"
proof -
  let ?e = "(1::int, [''phone'' \<mapsto> ''0101'', ''email'' \<mapsto> ''x@y.z''])"
  let ?row = "(2::int, [''phone'' \<mapsto> ''0101'', ''email'' \<mapsto> ''a@b.c''])"
  have 1: "distinct (uniqueColumns contactSchema)"
    by (simp add: uniqueColumns_def contactSchema_def)
  have 2: "''phone'' \<in> set (uniqueColumns contactSchema)"
    by (simp add: uniqueColumns_def contactSchema_def)
  have 3: "reaches stubLib contactSchema ?e" "reaches stubLib contactSchema ?row"
    by (simp_all add: reaches_def validator_defs example_defs)
  have 4: "valueAt stubLib contactSchema ?e ''phone'' = ''0101''"
    "valueAt stubLib contactSchema ?row ''phone'' = ''0101''"
    by (simp_all add: valueAt_def validator_defs example_defs)
  from uniqueness_in_order [OF 1 2, of stubLib "[?e]" ?row] 1 2 3 4
  show ?thesis by simp
qed

text \<open>
  The claim as it was stated fails when the first row with a value does not reach the
  check: row 1 lacks its required email, so its phone is not recorded, and row 2 with the
  same phone is valid, with no duplicate error.
\<close>

theorem uniqueness_in_order_counterexample:
  "map_option (map (\<lambda>r. (Valid r, Errors r)) \<circ> fst)
     (validateRows stubLib (NewValidator contactSchema)
        [(1, [''phone'' \<mapsto> ''0101'', ''email'' \<mapsto> []]),
         (2, [''phone'' \<mapsto> ''0101'', ''email'' \<mapsto> ''a@b.c''])])
   = Some [(False, [\<lparr>Row = 1, Column = ''email'', Value = [],
                      Message = ''required field is missing or empty''\<rparr>]),
           (True, [])]"
  by (simp add: validator_defs example_defs ruleStep_def Let_def)

text \<open>
  Claim C8. For every input string, the transform of the validator and the template
  function \<open>toE164KR\<close> both compute what the specification describes: the digits of the
  input, with \<open>+82\<close> in place of the leading \<open>0\<close> when they are ten digits starting with
  \<open>0\<close> or eleven starting with \<open>01\<close>.
\<close>

theorem e164_transforms_agree:
  "formatKoreanPhoneE164 phone = e164KR_spec phone \<and> toE164KR phone = e164KR_spec phone"
  unfolding formatKoreanPhoneE164_def toE164KR_def e164KR_spec_def Let_def filter_digits
  using e164_branch [of "removeNonDigits phone"] by simp

theorem e164_transforms_agree_witness:
  "formatKoreanPhoneE164 ''010-1234-5678'' = ''+821012345678''
   \<and> toE164KR ''010-1234-5678'' = ''+821012345678''"
  using e164_transforms_agree [of "''010-1234-5678''"]
  by (simp add: e164KR_spec_def)

text \<open>
  Claim C9 says that \<open>min_len\<close> and \<open>max_len\<close> bound the number of Unicode code points of
  the value. \<open>validateValue\<close> compares them with \<open>len(value)\<close>, the number of bytes, while
  its messages speak of characters: the single code point U+AC00, three bytes in UTF-8, is
  rejected as too long for a column of at most one character.
\<close>

theorem length_in_bytes:
  "RuneCountInString hangul_ga = 1 \<and>
   validateValue L hangul_ga ((stringColumn ''name'' True)\<lparr>MaxLen := Some 1\<rparr>)
     = Some ''value too long (max 1 characters)''"
  by (simp add: validator_defs hangul_ga_def RuneCountInString_def continuation_def Itoa_def
        digitsOf.simps)

text \<open>
  Claim C10. For a schema whose column names are distinct and a column of it that is
  required, a row whose raw value for the column is the empty string is validated with
  exactly one error for that column, the error \<open>required field is missing or empty\<close>,
  whatever \<open>treat_empty_as_null\<close> is.
\<close>

theorem required_empty_one_error:
  assumes "distinct (map Name (Columns (schema v)))"
    and "c \<in> set (Columns (schema v))"
    and "Required c"
    and "data (Name c) = Some []"
  shows "\<exists>r v'. ValidateRow L v rowNum data = Some (r, v')
           \<and> filter (\<lambda>e. Column e = Name c) (Errors r)
               = [\<lparr>Row = rowNum, Column = Name c, Value = [],
                   Message = ''required field is missing or empty''\<rparr>]"
proof -
  let ?p = "columnPhase L (schema v) rowNum data"
  have one: "filter (\<lambda>e. Column e = Name c) (Errors ?p)
               = [\<lparr>Row = rowNum, Column = Name c, Value = [],
                   Message = ''required field is missing or empty''\<rparr>]"
    using assms by (simp add: Errors_columnPhase filter_concat_columnErrors columnErrors_required_empty)
  then have "Errors ?p \<noteq> []" by auto
  then have "\<not> Valid ?p" by (simp add: Valid_columnPhase)
  then have "ValidateRow L v rowNum data = Some (?p, v)" by (rule ValidateRow_invalid)
  with one show ?thesis by blast
qed

theorem required_empty_one_error_witness:
  "distinct (map Name (Columns (schema (NewValidator contactSchema))))
   \<and> stringColumn ''email'' True \<in> set (Columns (schema (NewValidator contactSchema)))
   \<and> Required (stringColumn ''email'' True)
   \<and> [''phone'' \<mapsto> ''0101'', ''email'' \<mapsto> []] (Name (stringColumn ''email'' True)) = Some []
   \<and> \<not> TreatEmptyAsNull (NullPolicy contactSchema)
   \<and> (\<exists>r v'. ValidateRow stubLib (NewValidator contactSchema) 7
                  [''phone'' \<mapsto> ''0101'', ''email'' \<mapsto> []] = Some (r, v')
          \<and> filter (\<lambda>e. Column e = ''email'') (Errors r)
               = [\<lparr>Row = 7, Column = ''email'', Value = [],
                   Message = ''required field is missing or empty''\<rparr>])"
proof -
  have 1: "distinct (map Name (Columns (schema (NewValidator contactSchema))))"
    by (simp add: validator_defs example_defs)
  have 2: "stringColumn ''email'' True \<in> set (Columns (schema (NewValidator contactSchema)))"
    by (simp add: NewValidator_def contactSchema_def)
  have 3: "Required (stringColumn ''email'' True)"
    by (simp add: stringColumn_def)
  have 4: "[''phone'' \<mapsto> ''0101'', ''email'' \<mapsto> []] (Name (stringColumn ''email'' True)) = Some []"
    by (simp add: stringColumn_def)
  have 5: "\<not> TreatEmptyAsNull (NullPolicy contactSchema)"
    by (simp add: contactSchema_def)
  from required_empty_one_error
         [where v = "NewValidator contactSchema" and c = "stringColumn ''email'' True"
            and data = "[''phone'' \<mapsto> ''0101'', ''email'' \<mapsto> []]" and L = stubLib
            and rowNum = 7, OF 1 2 3 4]
       1 2 3 4 5 show ?thesis
    by (simp add: stringColumn_def)
qed


end
